theory Spec2Isabelle
  imports Complex_Main "HOL-Library.Multiset"
begin

section \<open>Python errors as values\<close>

text \<open>
  Every exception the modelled code can raise is a value of \<open>error\<close>; a fallible
  computation returns \<open>error + 'a\<close> with \<open>Inl\<close> for the raised exception.
\<close>

datatype error = KeyError | IndexError | ValueError | ZeroDivisionError | OverflowError

definition ebind :: "error + 'a \<Rightarrow> ('a \<Rightarrow> error + 'b) \<Rightarrow> error + 'b" where
  "ebind m f = (case m of Inl e \<Rightarrow> Inl e | Inr v \<Rightarrow> f v)"

text \<open>\<open>xs[i]\<close> for a non-negative index: IndexError out of range.\<close>

definition index :: "'a list \<Rightarrow> nat \<Rightarrow> error + 'a" where
  "index xs i = (if i < length xs then Inr (xs ! i) else Inl IndexError)"

text \<open>\<open>xs[i] = v\<close>: IndexError out of range.\<close>

definition store :: "'a list \<Rightarrow> nat \<Rightarrow> 'a \<Rightarrow> error + 'a list" where
  "store xs i v = (if i < length xs then Inr (xs[i := v]) else Inl IndexError)"

text \<open>\<open>d[k]\<close> on a dict: KeyError when the key is absent.\<close>

definition lookup :: "('k \<rightharpoonup> 'v) \<Rightarrow> 'k \<Rightarrow> error + 'v" where
  "lookup d k = (case d k of None \<Rightarrow> Inl KeyError | Some v \<Rightarrow> Inr v)"

text \<open>\<open>xs.remove(x)\<close>: deletes the first occurrence, ValueError when there is none.\<close>

definition list_remove :: "'a \<Rightarrow> 'a list \<Rightarrow> error + 'a list" where
  "list_remove x xs = (if x \<in> set xs then Inr (remove1 x xs) else Inl ValueError)"

text \<open>A list comprehension whose body can raise: the first failure aborts it.\<close>

fun emap :: "('a \<Rightarrow> error + 'b) \<Rightarrow> 'a list \<Rightarrow> error + 'b list" where
  "emap f [] = Inr []"
| "emap f (x # xs) = ebind (f x) (\<lambda>y. ebind (emap f xs) (\<lambda>ys. Inr (y # ys)))"

text \<open>A \<open>for\<close> loop over a list that threads a state and can raise.\<close>

fun efold :: "('a \<Rightarrow> 's \<Rightarrow> error + 's) \<Rightarrow> 'a list \<Rightarrow> 's \<Rightarrow> error + 's" where
  "efold f [] s = Inr s"
| "efold f (x # xs) s = ebind (f x s) (efold f xs)"

section \<open>Cards and the canonical hole key\<close>

text \<open>
  A card is the engine's two-character string, rank then suit (\<open>''Kd''\<close>).
  \<open>FULL_DECK\<close> is built by the module's two nested loops.
\<close>

definition NUMS :: "char list" where
  "NUMS = ''A23456789TJQK''"

definition SUITS :: "char list" where
  "SUITS = ''scdh''"

definition FULL_DECK :: "string list" where
  "FULL_DECK = concat (map (\<lambda>n. map (\<lambda>s. [n, s]) SUITS) NUMS)"

definition RANK_DICT :: "char \<rightharpoonup> int" where
  "RANK_DICT = map_of
     [(CHR ''2'', 2), (CHR ''3'', 3), (CHR ''4'', 4), (CHR ''5'', 5), (CHR ''6'', 6),
      (CHR ''7'', 7), (CHR ''8'', 8), (CHR ''9'', 9), (CHR ''T'', 10), (CHR ''J'', 11),
      (CHR ''Q'', 12), (CHR ''K'', 13), (CHR ''A'', 14)]"

definition rank_to_numeric :: "char \<Rightarrow> error + int" where
  "rank_to_numeric rank = lookup RANK_DICT rank"

text \<open>The sort key \<open>self.rank_to_numeric(x[0])\<close> of \<open>sort_cards_by_rank\<close>.\<close>

definition card_rank :: "string \<Rightarrow> error + int" where
  "card_rank x = ebind (index x 0) rank_to_numeric"

text \<open>
  \<open>sorted(cards, reverse=True, key=...)\<close>: the keys are computed first (any failure
  raises), then the cards are ordered by descending key; Python's sort is stable also
  with \<open>reverse=True\<close>, and so is \<open>sort_key\<close> on the negated key.
\<close>

definition sort_cards_by_rank :: "string list \<Rightarrow> error + string list" where
  "sort_cards_by_rank cards =
     ebind (emap card_rank cards)
       (\<lambda>ks. Inr (map snd (sort_key (\<lambda>kc. - fst kc) (zip ks cards))))"

definition hole_list_to_key :: "string list \<Rightarrow> error + string" where
  "hole_list_to_key hole =
     ebind (index hole 0) (\<lambda>card_1.
     ebind (index hole 1) (\<lambda>card_2.
     ebind (index card_1 0) (\<lambda>rank_1.
     ebind (index card_1 1) (\<lambda>suit_1.
     ebind (index card_2 0) (\<lambda>rank_2.
     ebind (index card_2 1) (\<lambda>suit_2.
     ebind (rank_to_numeric rank_1) (\<lambda>numeric_1.
     ebind (rank_to_numeric rank_2) (\<lambda>numeric_2.
       let suit_string = (if suit_1 = suit_2 then CHR ''s'' else CHR ''o'')
       in if numeric_1 \<ge> numeric_2
          then Inr [rank_1, rank_2, suit_string]
          else Inr [rank_2, rank_1, suit_string]))))))))"

section \<open>The player object\<close>

text \<open>
  The fields of \<open>Player\<close> set by \<open>__init__\<close>. \<open>starting_strengths\<close> is the dict
  read from \<open>hole_strengths.csv\<close>; the file is not part of the sources, so the table
  is whatever the field holds.
\<close>

record player =
  board_allocations :: "string list list"
  hole_strengths :: "real list"
  total_payoffs :: int
  mutated :: bool
  draise_pre :: real
  draise_post :: real
  dcall_pre :: real
  dcall_post :: real
  draise_exp :: real
  draise_const :: real
  starting_strengths :: "string \<rightharpoonup> real"

section \<open>The card allocator\<close>

text \<open>
  The running best of one selection round: \<open>(temp_cards, max_strength_hole)\<close>.
  \<open>try_pair\<close> is the body of the inner loop of \<open>allocate_cards\<close> for the pair
  \<open>[my_cards[i], my_cards[j]]\<close>; \<open>inner_loop\<close> runs \<open>j\<close> over the cards after
  position \<open>i\<close>, \<open>outer_loop\<close> runs \<open>i\<close> over the list (for the last card the inner
  range is empty, as in the source, where \<open>i\<close> stops one short).
\<close>

type_synonym best = "string list \<times> real"

definition try_pair :: "(string \<rightharpoonup> real) \<Rightarrow> string \<Rightarrow> string \<Rightarrow> best \<Rightarrow> error + best" where
  "try_pair tbl a b best =
     ebind (hole_list_to_key [a, b]) (\<lambda>temp_hole.
     ebind (lookup tbl temp_hole) (\<lambda>strength.
       if strength > snd best then Inr ([a, b], strength) else Inr best))"

fun inner_loop :: "(string \<rightharpoonup> real) \<Rightarrow> string \<Rightarrow> string list \<Rightarrow> best \<Rightarrow> error + best" where
  "inner_loop tbl a [] best = Inr best"
| "inner_loop tbl a (b # bs) best = ebind (try_pair tbl a b best) (inner_loop tbl a bs)"

fun outer_loop :: "(string \<rightharpoonup> real) \<Rightarrow> string list \<Rightarrow> best \<Rightarrow> error + best" where
  "outer_loop tbl [] best = Inr best"
| "outer_loop tbl (a # rest) best = ebind (inner_loop tbl a rest best) (outer_loop tbl rest)"

text \<open>
  One iteration \<open>k\<close> of the selection loop: scan, record the hand and its strength in
  slot \<open>2 - k\<close>, then remove the two cards. With no pair of positive strength
  \<open>temp_cards\<close> stays empty and \<open>temp_cards[0]\<close> raises IndexError.
\<close>

definition alloc_round :: "nat \<Rightarrow> player \<times> string list \<Rightarrow> error + player \<times> string list" where
  "alloc_round k st =
     (let p = fst st; my_cards = snd st in
      ebind (outer_loop (starting_strengths p) my_cards ([], 0)) (\<lambda>found.
      let temp_cards = fst found; max_strength_hole = snd found in
      ebind (store (board_allocations p) (2 - k) temp_cards) (\<lambda>allocs.
      ebind (store (hole_strengths p) (2 - k) max_strength_hole) (\<lambda>strengths.
      ebind (index temp_cards 0) (\<lambda>c0.
      ebind (list_remove c0 my_cards) (\<lambda>my_cards1.
      ebind (index temp_cards 1) (\<lambda>c1.
      ebind (list_remove c1 my_cards1) (\<lambda>my_cards2.
        Inr (p\<lparr>board_allocations := allocs, hole_strengths := strengths\<rparr>, my_cards2)))))))))"

definition allocate_cards :: "player \<Rightarrow> string list \<Rightarrow> error + player" where
  "allocate_cards p my_cards =
     ebind (sort_cards_by_rank my_cards) (\<lambda>sorted_cards.
     ebind (efold alloc_round [0, 1, 2] (p, sorted_cards)) (\<lambda>st. Inr (fst st)))"

subsection \<open>What the specification says about the allocator\<close>

text \<open>
  The candidate pairs of a card list in encounter order (\<open>i\<close> ascending, then \<open>j\<close>),
  the table strength of a pair, and "a pair of maximal strength, the first such pair
  on ties".
\<close>

fun pairs :: "'a list \<Rightarrow> ('a \<times> 'a) list" where
  "pairs [] = []"
| "pairs (a # rest) = map (Pair a) rest @ pairs rest"

definition table_strength :: "(string \<rightharpoonup> real) \<Rightarrow> string \<times> string \<Rightarrow> real option" where
  "table_strength tbl ab =
     (case hole_list_to_key [fst ab, snd ab] of Inl e \<Rightarrow> None | Inr k \<Rightarrow> tbl k)"

definition pair_strength :: "(string \<rightharpoonup> real) \<Rightarrow> string \<times> string \<Rightarrow> real" where
  "pair_strength tbl ab = (case table_strength tbl ab of None \<Rightarrow> 0 | Some v \<Rightarrow> v)"

text \<open>A pair is "present in the starting-strength table with positive strength".\<close>

definition positive_in_table :: "(string \<rightharpoonup> real) \<Rightarrow> string \<times> string \<Rightarrow> bool" where
  "positive_in_table tbl ab = (case table_strength tbl ab of None \<Rightarrow> False | Some v \<Rightarrow> 0 < v)"

definition is_first_max :: "('a \<Rightarrow> real) \<Rightarrow> 'a list \<Rightarrow> 'a \<Rightarrow> bool" where
  "is_first_max f ps p \<longleftrightarrow>
     (\<exists>i < length ps. ps ! i = p \<and> (\<forall>j < length ps. f (ps ! j) \<le> f p) \<and> (\<forall>j < i. f (ps ! j) < f p))"

text \<open>The same scan as one loop over a list of candidate pairs.\<close>

fun scan :: "(string \<rightharpoonup> real) \<Rightarrow> (string \<times> string) list \<Rightarrow> best \<Rightarrow> error + best" where
  "scan tbl [] best = Inr best"
| "scan tbl (ab # ps) best = ebind (try_pair tbl (fst ab) (snd ab) best) (scan tbl ps)"

definition remove_pair :: "'a \<times> 'a \<Rightarrow> 'a list \<Rightarrow> 'a list" where
  "remove_pair ab cs = remove1 (snd ab) (remove1 (fst ab) cs)"

section \<open>Python floats\<close>

text \<open>
  A Python float is an IEEE 754 binary64 number. Its value is a real number, and every
  arithmetic operation returns the exact result rounded to the nearest double, ties to
  the even significand: \<open>fl\<close>. \<open>binade x\<close> is the exponent \<open>e\<close> with
  \<open>2\<^sup>e \<le> \<bar>x\<bar> < 2\<^sup>e\<^sup>+\<^sup>1\<close>, not below \<open>-1022\<close> (the subnormal numbers have the spacing of
  the lowest binade); neighbouring doubles in that binade are \<open>2\<^sup>e\<^sup>-\<^sup>5\<^sup>2\<close> apart.
  Infinities and NaN are not modelled: a result beyond the largest double stays a finite
  real here, except in \<open>math.exp\<close>, which raises OverflowError.
\<close>

definition round_half_even :: "real \<Rightarrow> int" where
  "round_half_even y =
     (let f = \<lfloor>y\<rfloor>; r = y - of_int f
      in if r < 1 / 2 then f else if 1 / 2 < r then f + 1 else if even f then f else f + 1)"

definition binade :: "real \<Rightarrow> int" where
  "binade x = max \<lfloor>log 2 \<bar>x\<bar>\<rfloor> (- 1022)"

definition fl :: "real \<Rightarrow> real" where
  "fl x = (if x = 0 then 0
           else of_int (round_half_even (x / 2 powi (binade x - 52))) * 2 powi (binade x - 52))"

text \<open>A decimal literal of the source text denotes the nearest double.\<close>

definition lit :: "real \<Rightarrow> real" where
  "lit x = fl x"

definition fadd :: "real \<Rightarrow> real \<Rightarrow> real" where
  "fadd x y = fl (x + y)"

definition fsub :: "real \<Rightarrow> real \<Rightarrow> real" where
  "fsub x y = fl (x - y)"

definition fmul :: "real \<Rightarrow> real \<Rightarrow> real" where
  "fmul x y = fl (x * y)"

text \<open>\<open>x / y\<close> on floats, and on two ints (true division): both round the exact quotient.\<close>

definition float_div :: "real \<Rightarrow> real \<Rightarrow> error + real" where
  "float_div x y = (if y = 0 then Inl ZeroDivisionError else Inr (fl (x / y)))"

definition int_truediv :: "int \<Rightarrow> int \<Rightarrow> error + real" where
  "int_truediv a b = float_div (of_int a) (of_int b)"

text \<open>An int operand of a float operation is converted first.\<close>

definition float_of_int :: "int \<Rightarrow> real" where
  "float_of_int n = fl (of_int n)"

text \<open>\<open>int(x)\<close> truncates towards zero.\<close>

definition py_int :: "real \<Rightarrow> int" where
  "py_int x = (if 0 \<le> x then \<lfloor>x\<rfloor> else \<lceil>x\<rceil>)"

text \<open>
  \<open>math.sqrt\<close> raises ValueError below zero. \<open>math.exp\<close> raises OverflowError when the
  result exceeds the largest double; both are taken as correctly rounded.
\<close>

definition math_sqrt :: "real \<Rightarrow> error + real" where
  "math_sqrt x = (if x < 0 then Inl ValueError else Inr (fl (sqrt x)))"

definition max_double :: real where
  "max_double = (2 - 2 powi (- 52)) * 2 ^ 1023"

definition math_exp :: "real \<Rightarrow> error + real" where
  "math_exp x = (if max_double < fl (exp x) then Inl OverflowError else Inr (fl (exp x)))"

section \<open>The equity estimator\<close>

text \<open>
  \<open>random.sample(population, k)\<close>: ValueError when \<open>k\<close> is negative or exceeds the
  population; otherwise the module's generator picks the cards. The pick is the
  parameter \<open>draw\<close>, one function per call.
\<close>

definition random_sample :: "(string set \<Rightarrow> nat \<Rightarrow> string list) \<Rightarrow> string set \<Rightarrow> int \<Rightarrow> error + string list" where
  "random_sample draw population k =
     (if k < 0 \<or> int (card population) < k then Inl ValueError else Inr (draw population (nat k)))"

text \<open>What \<open>random.sample\<close> returns: \<open>k\<close> cards of the population, none twice.\<close>

definition is_sample :: "string set \<Rightarrow> nat \<Rightarrow> string list \<Rightarrow> bool" where
  "is_sample population k d \<longleftrightarrow> length d = k \<and> distinct d \<and> set d \<subseteq> population"

text \<open>
  The body of the sampling loop after the draw: \<open>eval7.evaluate\<close> is the parameter
  \<open>evaluate\<close> (the library is not part of the sources).
\<close>

definition iter_score :: "(string list \<Rightarrow> int) \<Rightarrow> string list \<Rightarrow> string list \<Rightarrow> string list \<Rightarrow> int" where
  "iter_score evaluate private public draw =
     (let opp_hole = take 2 draw;
          hidden_public = drop 2 draw;
          my_strength = evaluate (private @ public @ hidden_public);
          opp_strength = evaluate (opp_hole @ public @ hidden_public)
      in if my_strength > opp_strength then 2
         else if my_strength = opp_strength then 1
         else 0)"

text \<open>
  \<open>for _ in range(iters)\<close>: \<open>n\<close> iterations are left, \<open>i\<close> have run, \<open>draw i\<close> is
  the generator's pick in iteration \<open>i\<close>.
\<close>

fun mc_loop :: "(nat \<Rightarrow> string set \<Rightarrow> nat \<Rightarrow> string list) \<Rightarrow> (string list \<Rightarrow> int) \<Rightarrow> string list \<Rightarrow>
    string list \<Rightarrow> string set \<Rightarrow> int \<Rightarrow> nat \<Rightarrow> nat \<Rightarrow> int \<Rightarrow> error + int" where
  "mc_loop draw evaluate private public remaining_cards k 0 i score = Inr score"
| "mc_loop draw evaluate private public remaining_cards k (Suc n) i score =
     ebind (random_sample (draw i) remaining_cards k) (\<lambda>d.
       mc_loop draw evaluate private public remaining_cards k n (Suc i)
         (score + iter_score evaluate private public d))"

definition public_eval :: "(nat \<Rightarrow> string set \<Rightarrow> nat \<Rightarrow> string list) \<Rightarrow> (string list \<Rightarrow> int) \<Rightarrow>
    string list \<Rightarrow> string list \<Rightarrow> nat \<Rightarrow> int \<Rightarrow> error + real" where
  "public_eval draw evaluate private public street iters =
     (let PUB = 5 - int street;
          OPP = 2;
          remaining_cards = set FULL_DECK - set private - set public
      in ebind (mc_loop draw evaluate private public remaining_cards (OPP + PUB) (nat iters) 0 0)
           (\<lambda>score. int_truediv score (2 * iters)))"

section \<open>The threshold tuner\<close>

text \<open>
  The module-level dicts \<open>_RAISE_MIN_STR\<close>, \<open>_CALL_MIN_STR\<close> and \<open>_RAISE_VALUES\<close>, one
  field per key, with the values of the source text.
\<close>

record thresholds =
  RAISE_MIN_STR_pre :: real
  RAISE_MIN_STR_post :: real
  CALL_MIN_STR_pre :: real
  CALL_MIN_STR_post :: real
  RAISE_VALUES_exp :: real
  RAISE_VALUES_const :: real

definition initial_thresholds :: thresholds where
  "initial_thresholds =
     \<lparr>RAISE_MIN_STR_pre = lit (6066179515462299 / 10 ^ 16),
      RAISE_MIN_STR_post = lit (7212909509127321 / 10 ^ 16),
      CALL_MIN_STR_pre = lit (5570778707878955 / 10 ^ 16),
      CALL_MIN_STR_post = lit (6207629881906793 / 10 ^ 16),
      RAISE_VALUES_exp = lit (18301191486578343 / 10 ^ 16),
      RAISE_VALUES_const = lit (14439631715170798 / 10 ^ 15)\<rparr>"

text \<open>
  One sampled perturbation, \<open>(random.random() * width - half) / math.sqrt(round_num / mutate_iters)\<close>,
  where \<open>r\<close> is the value \<open>random.random()\<close> returned.
\<close>

definition perturbation :: "real \<Rightarrow> real \<Rightarrow> real \<Rightarrow> int \<Rightarrow> int \<Rightarrow> error + real" where
  "perturbation r width half round_num mutate_iters =
     (let numerator = fsub (fmul r width) half
      in ebind (int_truediv round_num mutate_iters) (\<lambda>q.
         ebind (math_sqrt q) (\<lambda>root.
         float_div numerator root)))"

text \<open>
  The three branches of \<open>mutate\<close> at a window boundary, before the accumulator is
  reset. \<open>rand k\<close> is the value of the \<open>k\<close>-th call of \<open>random.random()\<close>.
\<close>

definition new_mutation :: "(nat \<Rightarrow> real) \<Rightarrow> player \<Rightarrow> thresholds \<Rightarrow> int \<Rightarrow> int \<Rightarrow> error + player \<times> thresholds" where
  "new_mutation rand p g round_num mutate_iters =
     ebind (perturbation (rand 0) (lit (5 / 100)) (lit (25 / 1000)) round_num mutate_iters) (\<lambda>d_raise_pre.
     ebind (perturbation (rand 1) (lit (5 / 100)) (lit (25 / 1000)) round_num mutate_iters) (\<lambda>d_raise_post.
     ebind (perturbation (rand 2) (lit (5 / 100)) (lit (25 / 1000)) round_num mutate_iters) (\<lambda>d_call_pre.
     ebind (perturbation (rand 3) (lit (5 / 100)) (lit (25 / 1000)) round_num mutate_iters) (\<lambda>d_call_post.
     ebind (perturbation (rand 4) (lit (1 / 10)) (lit (5 / 100)) round_num mutate_iters) (\<lambda>d_raise_exp.
     ebind (perturbation (rand 5) 4 2 round_num mutate_iters) (\<lambda>d_raise_const.
       Inr (p\<lparr>mutated := True,
              draise_pre := d_raise_pre, draise_post := d_raise_post,
              dcall_pre := d_call_pre, dcall_post := d_call_post,
              draise_exp := d_raise_exp, draise_const := d_raise_const\<rparr>,
            g\<lparr>RAISE_MIN_STR_pre := fadd (RAISE_MIN_STR_pre g) d_raise_pre,
              RAISE_MIN_STR_post := fadd (RAISE_MIN_STR_post g) d_raise_post,
              CALL_MIN_STR_pre := fadd (CALL_MIN_STR_pre g) d_call_pre,
              CALL_MIN_STR_post := fadd (CALL_MIN_STR_post g) d_call_post,
              RAISE_VALUES_exp := fadd (RAISE_VALUES_exp g) d_raise_exp,
              RAISE_VALUES_const := fadd (RAISE_VALUES_const g) d_raise_const\<rparr>)))))))"

definition flip_mutation :: "player \<Rightarrow> thresholds \<Rightarrow> player \<times> thresholds" where
  "flip_mutation p g =
     (p\<lparr>mutated := False\<rparr>,
      g\<lparr>RAISE_MIN_STR_pre := fsub (RAISE_MIN_STR_pre g) (draise_pre p),
        RAISE_MIN_STR_post := fsub (RAISE_MIN_STR_post g) (draise_post p),
        CALL_MIN_STR_pre := fsub (CALL_MIN_STR_pre g) (dcall_pre p),
        CALL_MIN_STR_post := fsub (CALL_MIN_STR_post g) (dcall_post p),
        RAISE_VALUES_exp := fsub (RAISE_VALUES_exp g) (draise_exp p),
        RAISE_VALUES_const := fsub (RAISE_VALUES_const g) (draise_const p)\<rparr>)"

text \<open>
  \<open>mutate\<close>, called at the end of every round with the round's payoff \<open>my_delta\<close> and
  the round number. It updates the player object and the module-level thresholds.
\<close>

definition mutate :: "(nat \<Rightarrow> real) \<Rightarrow> player \<Rightarrow> thresholds \<Rightarrow> int \<Rightarrow> int \<Rightarrow> error + player \<times> thresholds" where
  "mutate rand p0 g my_delta round_num =
     (let p = p0\<lparr>total_payoffs := total_payoffs p0 + my_delta\<rparr>;
          mutate_iters = 5
      in if round_num mod mutate_iters = 0 then
           ebind
             (if total_payoffs p < 6 * mutate_iters then
                (if \<not> mutated p then new_mutation rand p g round_num mutate_iters
                 else Inr (flip_mutation p g))
              else if total_payoffs p = 6 * mutate_iters then Inr (p, g)
              else Inr (p\<lparr>mutated := False\<rparr>, g))
             (\<lambda>pg. Inr ((fst pg)\<lparr>total_payoffs := 0\<rparr>, snd pg))
         else Inr (p, g))"

text \<open>
  Two consecutive window boundaries: \<open>mutate\<close> at round \<open>n1\<close> with payoff \<open>d1\<close>, then
  at round \<open>n2\<close> with payoff \<open>d2\<close> (the rounds in between only add to the
  accumulator).
\<close>

definition two_windows :: "(nat \<Rightarrow> real) \<Rightarrow> player \<Rightarrow> thresholds \<Rightarrow> int \<Rightarrow> int \<Rightarrow> int \<Rightarrow> int \<Rightarrow>
    error + player \<times> thresholds" where
  "two_windows rand p g d1 n1 d2 n2 =
     ebind (mutate rand p g d1 n1) (\<lambda>pg. mutate rand (fst pg) (snd pg) d2 n2)"

text \<open>
  A real that is a double, a threshold state of doubles, and a mutation whose six
  additions were exact: every sum of a threshold and its perturbation is a double.
\<close>

definition is_double :: "real \<Rightarrow> bool" where
  "is_double x \<longleftrightarrow> fl x = x"

definition threshold_doubles :: "thresholds \<Rightarrow> bool" where
  "threshold_doubles g \<longleftrightarrow>
     is_double (RAISE_MIN_STR_pre g) \<and> is_double (RAISE_MIN_STR_post g) \<and>
     is_double (CALL_MIN_STR_pre g) \<and> is_double (CALL_MIN_STR_post g) \<and>
     is_double (RAISE_VALUES_exp g) \<and> is_double (RAISE_VALUES_const g)"

definition exact_sums :: "thresholds \<Rightarrow> player \<Rightarrow> bool" where
  "exact_sums g p \<longleftrightarrow>
     is_double (RAISE_MIN_STR_pre g + draise_pre p) \<and>
     is_double (RAISE_MIN_STR_post g + draise_post p) \<and>
     is_double (CALL_MIN_STR_pre g + dcall_pre p) \<and>
     is_double (CALL_MIN_STR_post g + dcall_post p) \<and>
     is_double (RAISE_VALUES_exp g + draise_exp p) \<and>
     is_double (RAISE_VALUES_const g + draise_const p)"

section \<open>The betting policy\<close>

text \<open>
  The engine's objects as \<open>get_actions\<close> reads them. An action class in a legal-action
  set is an \<open>action_kind\<close>. A board is a \<open>BoardState\<close> with the player's own pips
  (\<open>pips[active]\<close>), the opponent's (\<open>pips[1-active]\<close>), the pot, the community deck and
  the pair its method \<open>raise_bounds(active, stacks)\<close> returns, or a \<open>TerminalState\<close>
  (with the deck of its previous state). The engine itself is not part of the sources.
  The round state is declared below, after the functions that name a local \<open>street\<close>.
\<close>

datatype action = FoldAction | CallAction | CheckAction | RaiseAction int | AssignAction "string list"

datatype action_kind = KFold | KCall | KCheck | KRaise | KAssign

datatype board_state =
    BoardState (pips_me: int) (pips_opp: int) (pot: int) (deck: "string list") (bounds: "int \<times> int")
  | TerminalState (previous_deck: "string list")

text \<open>
  The random choices of one decision cycle: the value \<open>random.random()\<close> returns while
  board \<open>i\<close> is decided, the picks of \<open>random.sample\<close> in the estimator's run for board
  \<open>i\<close>, and the hand evaluator.
\<close>

record chance =
  random_value :: "nat \<Rightarrow> real"
  random_draw :: "nat \<Rightarrow> nat \<Rightarrow> string set \<Rightarrow> nat \<Rightarrow> string list"
  evaluate :: "string list \<Rightarrow> int"

text \<open>
  Modelled from the spec: \<open>NUM_BOARDS\<close> is imported from \<open>skeleton.states\<close>, which is not
  among the sources; the specification has three boards per round.
\<close>

definition NUM_BOARDS :: nat where
  "NUM_BOARDS = 3"

definition MONTE_CARLO_ITERS :: int where
  "MONTE_CARLO_ITERS = 400"

definition INTIMIDATION_THRESHOLD :: int where
  "INTIMIDATION_THRESHOLD = 0"

datatype state_str = Pre | Post

definition RAISE_MIN_STR :: "thresholds \<Rightarrow> state_str \<Rightarrow> real" where
  "RAISE_MIN_STR g s = (case s of Pre \<Rightarrow> RAISE_MIN_STR_pre g | Post \<Rightarrow> RAISE_MIN_STR_post g)"

definition CALL_MIN_STR :: "thresholds \<Rightarrow> state_str \<Rightarrow> real" where
  "CALL_MIN_STR g s = (case s of Pre \<Rightarrow> CALL_MIN_STR_pre g | Post \<Rightarrow> CALL_MIN_STR_post g)"

text \<open>
  Strength and candidate raise of an active board: \<open>(state_str, strength, raise_amount)\<close>,
  before and after the flop. The literals \<open>0.5\<close> and \<open>10\<close> are doubles as they stand.
\<close>

definition preflop_strength :: "player \<Rightarrow> thresholds \<Rightarrow> nat \<Rightarrow> string list \<Rightarrow> int \<Rightarrow> int \<Rightarrow>
    error + state_str \<times> real \<times> int" where
  "preflop_strength p g i cards my_pip board_cont_cost =
     ebind (index (hole_strengths p) i) (\<lambda>strength.
     ebind (hole_list_to_key cards) (\<lambda>k.
     ebind (lookup (starting_strengths p) k) (\<lambda>v.
       if v > RAISE_MIN_STR g Pre
       then Inr (Pre, strength,
              py_int (fadd (float_of_int (my_pip + board_cont_cost)) (fmul (fsub strength (1 / 2)) 10)))
       else Inr (Pre, strength, 0))))"

definition postflop_strength :: "chance \<Rightarrow> thresholds \<Rightarrow> nat \<Rightarrow> string list \<Rightarrow> string list \<Rightarrow> nat \<Rightarrow>
    int \<Rightarrow> int \<Rightarrow> error + state_str \<times> real \<times> int" where
  "postflop_strength orc g i cards board_cards street my_pip board_cont_cost =
     ebind (public_eval (random_draw orc i) (evaluate orc) cards (take street board_cards) street
              MONTE_CARLO_ITERS) (\<lambda>strength.
       if strength > RAISE_MIN_STR g Post
       then ebind (math_exp (fmul (RAISE_VALUES_exp g) (fsub strength (lit (321875 / 10 ^ 6))))) (\<lambda>e.
              Inr (Post, strength,
                py_int (fsub (fadd (float_of_int (my_pip + board_cont_cost))
                                   (fmul (float_of_int (int (street ^ 2))) e))
                             (RAISE_VALUES_const g))))
       else Inr (Post, strength, 0))"

text \<open>The \<open>if street < 3\<close> statement that chooses between the two.\<close>

definition strength_and_raise :: "chance \<Rightarrow> player \<Rightarrow> thresholds \<Rightarrow> nat \<Rightarrow> nat \<Rightarrow> string list \<Rightarrow>
    board_state \<Rightarrow> error + state_str \<times> real \<times> int" where
  "strength_and_raise orc p g street i cards bs =
     (if street < 3
      then preflop_strength p g i cards (pips_me bs) (pips_opp bs - pips_me bs)
      else postflop_strength orc g i cards (deck bs) street (pips_me bs) (pips_opp bs - pips_me bs))"

text \<open>"make sure we have a valid raise": the two clamping assignments.\<close>

definition clamp_raise :: "int \<Rightarrow> int \<Rightarrow> int \<Rightarrow> int" where
  "clamp_raise min_raise max_raise raise_amount = min max_raise (max min_raise raise_amount)"

text \<open>The commit action and its cost: \<open>(commit_action, commit_cost)\<close>.\<close>

definition commit :: "action_kind set \<Rightarrow> int \<Rightarrow> int \<Rightarrow> int \<Rightarrow> int \<Rightarrow> int \<Rightarrow> action \<times> int" where
  "commit legal raise_amount my_pip board_cont_cost stack net_cost =
     (let raise_cost = raise_amount - my_pip
      in if KRaise \<in> legal \<and> raise_cost \<le> stack - net_cost \<and> raise_cost \<noteq> 0
           then (RaiseAction raise_amount, raise_cost)
         else if KCall \<in> legal \<and> board_cont_cost \<le> stack - net_cost
           then (CallAction, board_cont_cost)
         else if KCheck \<in> legal
           then (CheckAction, 0)
         else (FoldAction, 0))"

text \<open>The strength after the intimidation discount.\<close>

definition intimidate :: "nat \<Rightarrow> int \<Rightarrow> real \<Rightarrow> error + real" where
  "intimidate street board_cont_cost strength =
     (if board_cont_cost > INTIMIDATION_THRESHOLD then
        (if street = 0 \<and> board_cont_cost > 20 then Inr strength
         else
           ebind (math_sqrt (float_of_int (board_cont_cost - INTIMIDATION_THRESHOLD))) (\<lambda>root_cost.
           ebind (math_sqrt strength) (\<lambda>root_strength.
             let intimidation = fmul (fmul (lit (5 / 100)) root_cost) root_strength
             in Inr (max 0 (fsub strength intimidation)))))
      else Inr strength)"

definition pot_odds :: "int \<Rightarrow> int \<Rightarrow> error + real" where
  "pot_odds board_cont_cost pot_total = int_truediv board_cont_cost (pot_total + board_cont_cost)"

text \<open>
  The branch \<open>board_cont_cost > 0\<close> ("our opp raised"): the action for the board and the
  new \<open>net_cost\<close>. \<open>rnd\<close> is the value of \<open>random.random()\<close>.
\<close>

definition respond :: "real \<Rightarrow> thresholds \<Rightarrow> state_str \<Rightarrow> nat \<Rightarrow> int \<Rightarrow> int \<Rightarrow> real \<Rightarrow> action \<times> int \<Rightarrow>
    int \<Rightarrow> int \<Rightarrow> error + action \<times> int" where
  "respond rnd g state street board_cont_cost pot_total strength0 committed stack net_cost =
     (let preintimidation_strength = strength0 in
      ebind (intimidate street board_cont_cost strength0) (\<lambda>strength.
      ebind (pot_odds board_cont_cost pot_total) (\<lambda>odds.
        if strength \<ge> odds then
          (if rnd < fmul (lit (14 / 10)) strength \<and> preintimidation_strength > RAISE_MIN_STR g state
             then Inr (fst committed, net_cost + snd committed)
           else
             ebind (math_sqrt (float_of_int (board_cont_cost - INTIMIDATION_THRESHOLD))) (\<lambda>root_cost.
               if (root_cost < 6 \<and> preintimidation_strength > CALL_MIN_STR g state)
                  \<or> preintimidation_strength > RAISE_MIN_STR g state
               then (if board_cont_cost \<le> stack - net_cost
                     then Inr (CallAction, net_cost + board_cont_cost)
                     else Inr (FoldAction, net_cost + 0))
               else Inr (FoldAction, net_cost + 0)))
        else Inr (FoldAction, net_cost + 0))))"

text \<open>The branch \<open>board_cont_cost == 0\<close> ("we control the action").\<close>

definition initiative :: "real \<Rightarrow> thresholds \<Rightarrow> state_str \<Rightarrow> real \<Rightarrow> action \<times> int \<Rightarrow> int \<Rightarrow> action \<times> int" where
  "initiative rnd g state strength committed net_cost =
     (if rnd < fmul (lit (14 / 10)) strength \<and> strength > RAISE_MIN_STR g state
      then (fst committed, net_cost + snd committed)
      else (CheckAction, net_cost + 0))"

text \<open>The \<open>else\<close> branch of the loop body: a board that is still played.\<close>

definition active_board :: "chance \<Rightarrow> player \<Rightarrow> thresholds \<Rightarrow> nat \<Rightarrow> int \<Rightarrow> nat \<Rightarrow> string list \<Rightarrow>
    action_kind set \<Rightarrow> board_state \<Rightarrow> int \<Rightarrow> error + action \<times> int" where
  "active_board orc p g street stack i cards legal bs net_cost =
     (let my_pip = pips_me bs;
          opp_pip = pips_opp bs;
          board_cont_cost = opp_pip - my_pip;
          board_total = pot bs;
          pot_total = my_pip + opp_pip + board_total;
          min_raise = fst (bounds bs);
          max_raise = snd (bounds bs)
      in ebind (strength_and_raise orc p g street i cards bs) (\<lambda>sr.
         let state = fst sr;
             strength = fst (snd sr);
             raise_amount = clamp_raise min_raise max_raise (snd (snd sr));
             committed = commit legal raise_amount my_pip board_cont_cost stack net_cost
         in if board_cont_cost > 0
            then respond (random_value orc i) g state street board_cont_cost pot_total strength
                   committed stack net_cost
            else Inr (initiative (random_value orc i) g state strength committed net_cost)))"

text \<open>
  What \<open>get_actions\<close> reads of the round state: the street (0, 3, 4 or 5), the
  player's stack \<open>stacks[active]\<close>, the boards and the result of \<open>legal_actions()\<close>.
\<close>

record round_state =
  street :: nat
  my_stack :: int
  board_states :: "board_state list"
  legal_actions :: "action_kind set list"

text \<open>The loop body for board \<open>i\<close>: the action for the board and the new \<open>net_cost\<close>.\<close>

definition play_board :: "chance \<Rightarrow> player \<Rightarrow> thresholds \<Rightarrow> round_state \<Rightarrow> nat \<Rightarrow> int \<Rightarrow> error + action \<times> int" where
  "play_board orc p g rs i net_cost =
     ebind (index (board_allocations p) i) (\<lambda>cards.
     ebind (index (legal_actions rs) i) (\<lambda>legal.
       if KAssign \<in> legal then Inr (AssignAction cards, net_cost)
       else
         ebind (index (board_states rs) i) (\<lambda>bs.
           case bs of
             TerminalState d \<Rightarrow> Inr (CheckAction, net_cost)
           | BoardState a b c d e \<Rightarrow>
               active_board orc p g (street rs) (my_stack rs) i cards legal bs net_cost)))"

fun boards_loop :: "(nat \<Rightarrow> int \<Rightarrow> error + action \<times> int) \<Rightarrow> nat list \<Rightarrow> int \<Rightarrow> error + action list \<times> int" where
  "boards_loop body [] net_cost = Inr ([], net_cost)"
| "boards_loop body (i # rest) net_cost =
     ebind (body i net_cost) (\<lambda>r.
     ebind (boards_loop body rest (snd r)) (\<lambda>rs.
       Inr (fst r # fst rs, snd rs)))"

text \<open>
  One decision cycle: the actions of the three boards and the final \<open>net_cost\<close>. The
  list comprehension for \<open>continue_cost\<close> indexes the pips of \<open>NUM_BOARDS\<close> boards and
  raises IndexError when there are fewer.
\<close>

definition decision_cycle :: "chance \<Rightarrow> player \<Rightarrow> thresholds \<Rightarrow> round_state \<Rightarrow> error + action list \<times> int" where
  "decision_cycle orc p g rs =
     (if length (board_states rs) < NUM_BOARDS then Inl IndexError
      else boards_loop (play_board orc p g rs) [0 ..< NUM_BOARDS] 0)"

definition get_actions :: "chance \<Rightarrow> player \<Rightarrow> thresholds \<Rightarrow> round_state \<Rightarrow> error + action list" where
  "get_actions orc p g rs = ebind (decision_cycle orc p g rs) (\<lambda>r. Inr (fst r))"

subsection \<open>Chip costs of the emitted actions\<close>

text \<open>
  The source's lists \<open>my_pips\<close>, \<open>opp_pips\<close> and \<open>continue_cost\<close>, and what an action
  costs the player on board \<open>i\<close>: a raise to \<open>amount\<close> costs \<open>amount\<close> minus the pips
  already in, a call costs the continue cost, every other action nothing.
\<close>

definition my_pips :: "round_state \<Rightarrow> nat \<Rightarrow> int" where
  "my_pips rs i = (case board_states rs ! i of BoardState a b c d e \<Rightarrow> a | TerminalState d \<Rightarrow> 0)"

definition opp_pips :: "round_state \<Rightarrow> nat \<Rightarrow> int" where
  "opp_pips rs i = (case board_states rs ! i of BoardState a b c d e \<Rightarrow> b | TerminalState d \<Rightarrow> 0)"

definition continue_cost :: "round_state \<Rightarrow> nat \<Rightarrow> int" where
  "continue_cost rs i = opp_pips rs i - my_pips rs i"

definition action_cost :: "round_state \<Rightarrow> nat \<Rightarrow> action \<Rightarrow> int" where
  "action_cost rs i a =
     (case a of RaiseAction amount \<Rightarrow> amount - my_pips rs i
              | CallAction \<Rightarrow> continue_cost rs i
              | _ \<Rightarrow> 0)"

text \<open>The same cost from the board's own pips and continue cost.\<close>

definition board_cost :: "int \<Rightarrow> int \<Rightarrow> action \<Rightarrow> int" where
  "board_cost my cont a = (case a of RaiseAction amount \<Rightarrow> amount - my | CallAction \<Rightarrow> cont | _ \<Rightarrow> 0)"

definition commits_chips :: "action \<Rightarrow> bool" where
  "commits_chips a = (case a of RaiseAction amount \<Rightarrow> True | CallAction \<Rightarrow> True | _ \<Rightarrow> False)"

subsection \<open>The commit precedence as the specification words it\<close>

text \<open>
  "raise (if legal, affordable within stack minus already-committed cross-board cost,
  and the raise amount differs from a pure call) > call (if affordable) > check (if
  legal) > fold". A pure call brings the player's pips up to the opponent's.
\<close>

definition commit_as_specified :: "action_kind set \<Rightarrow> int \<Rightarrow> int \<Rightarrow> int \<Rightarrow> int \<Rightarrow> int \<Rightarrow> action" where
  "commit_as_specified legal raise_amount my_pip board_cont_cost stack net_cost =
     (if KRaise \<in> legal \<and> raise_amount - my_pip \<le> stack - net_cost
         \<and> raise_amount \<noteq> my_pip + board_cont_cost
        then RaiseAction raise_amount
      else if board_cont_cost \<le> stack - net_cost then CallAction
      else if KCheck \<in> legal then CheckAction
      else FoldAction)"

section \<open>Example inputs\<close>

text \<open>
  The example hand of the specification, \<open>{As, Ah, Kd, Ks, 2c, 2d}\<close>, in a shuffled
  order, with a table that covers the keys of its pairs (the strengths are illustrative
  doubles: the table file is not part of the sources), a player as \<open>__init__\<close> leaves it, and
  the player after the allocation.
\<close>

definition example_table :: "string \<rightharpoonup> real" where
  "example_table = map_of
     [(''AAo'', 27 / 32), (''KKo'', 13 / 16), (''AKs'', 21 / 32), (''AKo'', 5 / 8),
      (''A2o'', 9 / 16), (''K2s'', 35 / 64), (''K2o'', 17 / 32), (''22o'', 1 / 2),
      (''72o'', 11 / 32)]"

definition example_player :: player where
  "example_player =
     \<lparr>board_allocations = [[], [], []], hole_strengths = [0, 0, 0],
      total_payoffs = 0, mutated = False, draise_pre = 0, draise_post = 0, dcall_pre = 0,
      dcall_post = 0, draise_exp = 0, draise_const = 0, starting_strengths = example_table\<rparr>"

definition example_cards :: "string list" where
  "example_cards = [''2c'', ''As'', ''Kd'', ''Ah'', ''2d'', ''Ks'']"

definition example_allocated :: player where
  "example_allocated =
     example_player\<lparr>board_allocations := [[''2c'', ''2d''], [''Kd'', ''Ks''], [''As'', ''Ah'']],
                    hole_strengths := [1 / 2, 13 / 16, 27 / 32]\<rparr>"

text \<open>
  An estimator run on the flop: pocket aces, two iterations with fixed picks, and a
  stand-in evaluator that counts aces.
\<close>

definition example_evaluate :: "string list \<Rightarrow> int" where
  "example_evaluate cs = int (length (filter (\<lambda>c. take 1 c = ''A'') cs))"

definition example_draw :: "nat \<Rightarrow> string set \<Rightarrow> nat \<Rightarrow> string list" where
  "example_draw i population k =
     (if i = 0 then [''Kc'', ''Ks'', ''3d'', ''4d''] else [''Ac'', ''Ad'', ''9h'', ''Th''])"

text \<open>
  Two runs of the tuner from the initial thresholds, at rounds 5 and 10 with nothing
  won. In both, \<open>random.random()\<close> returns \<open>0.5\<close> five times, so that the first five
  perturbations are zero. In the first run the sixth value is \<open>0.9375 + 3 / 2\<^sup>5\<^sup>3\<close>, a
  value \<open>random.random()\<close> can return (a multiple of \<open>2\<^sup>-\<^sup>5\<^sup>3\<close> below 1); in the second
  it is \<open>0.75\<close>.
\<close>

definition example_rand :: "nat \<Rightarrow> real" where
  "example_rand k = (if k = 5 then 8444249301319683 / 2 ^ 53 else 1 / 2)"

definition example_rand_exact :: "nat \<Rightarrow> real" where
  "example_rand_exact k = (if k = 5 then 3 / 4 else 1 / 2)"

text \<open>
  The doubles of the first run: the initial \<open>_RAISE_VALUES['const']\<close>
  (14.439631715170798), the sixth perturbation (1.7500000000000013), their rounded sum
  and the rounded difference of that sum and the perturbation (14.439631715170796).
\<close>

definition example_const :: real where
  "example_const = 2032197500369075 / 2 ^ 47"

definition example_delta :: real where
  "example_delta = 3940649673949187 / 2 ^ 51"

definition example_sum :: real where
  "example_sum = 2278488104990899 / 2 ^ 47"

definition example_restored :: real where
  "example_restored = 8128790001476299 / 2 ^ 49"

definition example_mutated_thresholds :: thresholds where
  "example_mutated_thresholds = initial_thresholds\<lparr>RAISE_VALUES_const := example_sum\<rparr>"

definition example_mutated_player :: player where
  "example_mutated_player = example_player\<lparr>mutated := True, draise_const := example_delta\<rparr>"

definition example_reverted_thresholds :: thresholds where
  "example_reverted_thresholds = initial_thresholds\<lparr>RAISE_VALUES_const := example_restored\<rparr>"

definition example_reverted_player :: player where
  "example_reverted_player = example_player\<lparr>draise_const := example_delta\<rparr>"

text \<open>The states of the second run: the perturbation of the constant is exactly 1.\<close>

definition example_exact_thresholds :: thresholds where
  "example_exact_thresholds = initial_thresholds\<lparr>RAISE_VALUES_const := example_const + 1\<rparr>"

definition example_exact_player :: player where
  "example_exact_player = example_player\<lparr>mutated := True, draise_const := 1\<rparr>"

text \<open>
  A decision before the flop. The player is the big blind with 2 chips in on every
  board and 194 left; the opponent has raised to 27 on every board, so that continuing
  costs 25 per board; raises must lie between 52 and 146. \<open>random.random()\<close> returns
  \<open>0.5\<close> on every board. The deciding player holds seven-deuce on board 0, kings on
  board 1 and aces on board 2.
\<close>

definition example_board :: board_state where
  "example_board = BoardState 2 27 0 [] (52, 146)"

definition example_round :: round_state where
  "example_round =
     \<lparr>street = 0, my_stack = 194,
      board_states = [example_board, example_board, example_board],
      legal_actions = [{KFold, KCall, KRaise}, {KFold, KCall, KRaise}, {KFold, KCall, KRaise}]\<rparr>"

definition example_chance :: chance where
  "example_chance =
     \<lparr>random_value = (\<lambda>i. 1 / 2), random_draw = (\<lambda>i. example_draw), evaluate = example_evaluate\<rparr>"

definition example_weak_player :: player where
  "example_weak_player =
     example_allocated\<lparr>board_allocations := [[''7c'', ''2d''], [''Kd'', ''Ks''], [''As'', ''Ah'']],
                      hole_strengths := [11 / 32, 13 / 16, 27 / 32]\<rparr>"

section \<open>Basic facts about the error monad and the containers\<close>

lemma ebind_Inl [simp]: "ebind (Inl e) f = Inl e"
  by (simp add: ebind_def)

lemma ebind_Inr [simp]: "ebind (Inr v) f = f v"
  by (simp add: ebind_def)

lemma ebind_eq_Inr: "ebind m f = Inr r \<longleftrightarrow> (\<exists>v. m = Inr v \<and> f v = Inr r)"
  by (cases m) auto

lemma index_eq_Inr: "index xs i = Inr v \<longleftrightarrow> i < length xs \<and> xs ! i = v"
  by (auto simp: index_def)

lemma store_eq_Inr: "store xs i v = Inr ys \<longleftrightarrow> i < length xs \<and> ys = xs[i := v]"
  by (auto simp: store_def)

lemma list_remove_eq_Inr: "list_remove x xs = Inr ys \<longleftrightarrow> x \<in> set xs \<and> ys = remove1 x xs"
  by (auto simp: list_remove_def)

lemma lookup_eq_Inr: "lookup d k = Inr v \<longleftrightarrow> d k = Some v"
  by (auto simp: lookup_def split: option.splits)

section \<open>The card allocator: greedy selection and partition\<close>

lemma scan_append: "scan tbl (ps @ qs) best = ebind (scan tbl ps best) (scan tbl qs)"
proof (induction ps arbitrary: best)
  case Nil
  show ?case by simp
next
  case (Cons ab ps)
  show ?case
    by (cases "try_pair tbl (fst ab) (snd ab) best") (simp_all add: Cons.IH)
qed

lemma inner_loop_scan: "inner_loop tbl a bs best = scan tbl (map (Pair a) bs) best"
proof (induction bs arbitrary: best)
  case Nil
  show ?case by simp
next
  case (Cons b bs)
  show ?case
    by (cases "try_pair tbl a b best") (simp_all add: Cons.IH)
qed

lemma outer_loop_scan: "outer_loop tbl cs best = scan tbl (pairs cs) best"
proof (induction cs arbitrary: best)
  case Nil
  show ?case by simp
next
  case (Cons a rest)
  show ?case
    by (cases "inner_loop tbl a rest best")
       (simp_all add: scan_append Cons.IH inner_loop_scan [symmetric])
qed

lemma try_pair_Inr:
  assumes "try_pair tbl a b (t, m) = Inr r"
  shows "\<exists>v. table_strength tbl (a, b) = Some v \<and> r = (if v > m then ([a, b], v) else (t, m))"
  using assms
  by (auto simp: try_pair_def table_strength_def ebind_eq_Inr lookup_eq_Inr split: if_splits)

lemma try_pair_defined:
  assumes "table_strength tbl (a, b) = Some v"
  shows "try_pair tbl a b (t, m) = Inr (if v > m then ([a, b], v) else (t, m))"
  using assms
  by (auto simp: try_pair_def table_strength_def lookup_def split: sum.splits)

lemma scan_Inr:
  assumes "scan tbl ps (t, m) = Inr (t', m')"
  shows "(\<forall>p \<in> set ps. table_strength tbl p \<noteq> None) \<and>
         (\<forall>p \<in> set ps. pair_strength tbl p \<le> m') \<and> m \<le> m' \<and>
         ((t' = t \<and> m' = m) \<or>
          (\<exists>i < length ps. t' = [fst (ps ! i), snd (ps ! i)] \<and> m' = pair_strength tbl (ps ! i)
              \<and> (\<forall>j < i. pair_strength tbl (ps ! j) < m') \<and> m < m'))"
  using assms
proof (induction ps arbitrary: t m)
  case Nil
  then show ?case by simp
next
  case (Cons ab ps)
  obtain a b where ab: "ab = (a, b)" by (cases ab)
  from Cons.prems obtain r where r: "try_pair tbl a b (t, m) = Inr r" and rest: "scan tbl ps r = Inr (t', m')"
    by (auto simp: ab ebind_eq_Inr)
  from try_pair_Inr [OF r] obtain v where v: "table_strength tbl (a, b) = Some v"
    and r_eq: "r = (if v > m then ([a, b], v) else (t, m))" by blast
  have pv: "pair_strength tbl ab = v" by (simp add: pair_strength_def ab v)
  show ?case
  proof (cases "v > m")
    case True
    with r_eq rest have "scan tbl ps ([a, b], v) = Inr (t', m')" by simp
    from Cons.IH [OF this]
    have d: "\<forall>p \<in> set ps. table_strength tbl p \<noteq> None"
      and le: "\<forall>p \<in> set ps. pair_strength tbl p \<le> m'" and vm: "v \<le> m'"
      and alt: "(t' = [a, b] \<and> m' = v) \<or>
          (\<exists>i < length ps. t' = [fst (ps ! i), snd (ps ! i)] \<and> m' = pair_strength tbl (ps ! i)
              \<and> (\<forall>j < i. pair_strength tbl (ps ! j) < m') \<and> v < m')" by auto
    from alt have "\<exists>i < length (ab # ps). t' = [fst ((ab # ps) ! i), snd ((ab # ps) ! i)]
        \<and> m' = pair_strength tbl ((ab # ps) ! i)
        \<and> (\<forall>j < i. pair_strength tbl ((ab # ps) ! j) < m') \<and> m < m'"
    proof
      assume "t' = [a, b] \<and> m' = v"
      with True pv show ?thesis by (intro exI [of _ 0]) (simp add: ab)
    next
      assume "\<exists>i < length ps. t' = [fst (ps ! i), snd (ps ! i)] \<and> m' = pair_strength tbl (ps ! i)
              \<and> (\<forall>j < i. pair_strength tbl (ps ! j) < m') \<and> v < m'"
      then obtain i where i: "i < length ps" "t' = [fst (ps ! i), snd (ps ! i)]"
        "m' = pair_strength tbl (ps ! i)" "\<forall>j < i. pair_strength tbl (ps ! j) < m'" "v < m'" by blast
      have "\<forall>j < Suc i. pair_strength tbl ((ab # ps) ! j) < m'"
        using i(4,5) pv by (auto simp: nth_Cons split: nat.splits)
      with i True show ?thesis by (intro exI [of _ "Suc i"]) auto
    qed
    with d le vm True pv v show ?thesis by (auto simp: ab)
  next
    case False
    with r_eq rest have "scan tbl ps (t, m) = Inr (t', m')" by simp
    from Cons.IH [OF this]
    have d: "\<forall>p \<in> set ps. table_strength tbl p \<noteq> None"
      and le: "\<forall>p \<in> set ps. pair_strength tbl p \<le> m'" and mm: "m \<le> m'"
      and alt: "(t' = t \<and> m' = m) \<or>
          (\<exists>i < length ps. t' = [fst (ps ! i), snd (ps ! i)] \<and> m' = pair_strength tbl (ps ! i)
              \<and> (\<forall>j < i. pair_strength tbl (ps ! j) < m') \<and> m < m')" by auto
    from alt have "(t' = t \<and> m' = m) \<or> (\<exists>i < length (ab # ps). t' = [fst ((ab # ps) ! i), snd ((ab # ps) ! i)]
        \<and> m' = pair_strength tbl ((ab # ps) ! i)
        \<and> (\<forall>j < i. pair_strength tbl ((ab # ps) ! j) < m') \<and> m < m')"
    proof
      assume "t' = t \<and> m' = m"
      then show ?thesis by simp
    next
      assume "\<exists>i < length ps. t' = [fst (ps ! i), snd (ps ! i)] \<and> m' = pair_strength tbl (ps ! i)
              \<and> (\<forall>j < i. pair_strength tbl (ps ! j) < m') \<and> m < m'"
      then obtain i where i: "i < length ps" "t' = [fst (ps ! i), snd (ps ! i)]"
        "m' = pair_strength tbl (ps ! i)" "\<forall>j < i. pair_strength tbl (ps ! j) < m'" "m < m'" by blast
      have "\<forall>j < Suc i. pair_strength tbl ((ab # ps) ! j) < m'"
        using i(4,5) pv False by (auto simp: nth_Cons split: nat.splits)
      with i show ?thesis by (intro disjI2 exI [of _ "Suc i"]) auto
    qed
    with d le mm False pv v show ?thesis by (auto simp: ab)
  qed
qed


lemma in_pairs_mem: "(a, b) \<in> set (pairs cs) \<Longrightarrow> a \<in> set cs \<and> b \<in> set cs"
  by (induction cs) auto

lemma in_pairs_distinct: "distinct cs \<Longrightarrow> (a, b) \<in> set (pairs cs) \<Longrightarrow> a \<noteq> b"
  by (induction cs) (auto dest: in_pairs_mem)

lemma in_pairs_mset: "(a, b) \<in> set (pairs cs) \<Longrightarrow> {#a, b#} \<subseteq># mset cs"
proof (induction cs)
  case Nil
  then show ?case by simp
next
  case (Cons c cs)
  from Cons.prems have "(a = c \<and> b \<in> set cs) \<or> (a, b) \<in> set (pairs cs)" by auto
  then show ?case
  proof
    assume "a = c \<and> b \<in> set cs"
    then have "{#b#} \<subseteq># mset cs" by simp
    then have "{#c#} + {#b#} \<subseteq># {#c#} + mset cs" by (rule subset_mset.add_left_mono)
    with \<open>a = c \<and> b \<in> set cs\<close> show ?thesis by simp
  next
    assume "(a, b) \<in> set (pairs cs)"
    from Cons.IH [OF this] have "{#a, b#} \<subseteq># mset cs" .
    also have "mset cs \<subseteq># mset (c # cs)" by simp
    finally show ?thesis .
  qed
qed

lemma pairs_remove1_subset: "set (pairs (remove1 x cs)) \<subseteq> set (pairs cs)"
proof (induction cs)
  case Nil
  show ?case by simp
next
  case (Cons c cs)
  show ?case
  proof (cases "x = c")
    case True
    then show ?thesis by auto
  next
    case False
    have "set (remove1 x cs) \<subseteq> set cs" by (rule set_remove1_subset)
    with Cons.IH False show ?thesis by auto
  qed
qed

lemma alloc_round_Inr:
  assumes "alloc_round k (p, cs) = Inr (p', cs')"
  shows "\<exists>a b. is_first_max (pair_strength (starting_strengths p)) (pairs cs) (a, b)
           \<and> (\<forall>q \<in> set (pairs cs). table_strength (starting_strengths p) q \<noteq> None)
           \<and> (a, b) \<in> set (pairs cs)
           \<and> 0 < pair_strength (starting_strengths p) (a, b)
           \<and> 2 - k < length (board_allocations p) \<and> 2 - k < length (hole_strengths p)
           \<and> p' = p\<lparr>board_allocations := (board_allocations p)[2 - k := [a, b]],
                    hole_strengths := (hole_strengths p)[2 - k := pair_strength (starting_strengths p) (a, b)]\<rparr>
           \<and> cs' = remove1 b (remove1 a cs)"
proof -
  let ?tbl = "starting_strengths p"
  from assms obtain t m where sc: "scan ?tbl (pairs cs) ([], 0) = Inr (t, m)"
    and l1: "2 - k < length (board_allocations p)" and l2: "2 - k < length (hole_strengths p)"
    and t0: "0 < length t" and t1: "1 < length t"
    and p': "p' = p\<lparr>board_allocations := (board_allocations p)[2 - k := t],
                    hole_strengths := (hole_strengths p)[2 - k := m]\<rparr>"
    and cs': "cs' = remove1 (t ! 1) (remove1 (t ! 0) cs)"
    by (auto simp: alloc_round_def Let_def ebind_eq_Inr index_eq_Inr store_eq_Inr
        list_remove_eq_Inr outer_loop_scan)
  from scan_Inr [OF sc] t0
  obtain i where i: "i < length (pairs cs)" "t = [fst (pairs cs ! i), snd (pairs cs ! i)]"
    "m = pair_strength ?tbl (pairs cs ! i)" "\<forall>j < i. pair_strength ?tbl (pairs cs ! j) < m" "0 < m"
    and le: "\<forall>q \<in> set (pairs cs). pair_strength ?tbl q \<le> m"
    and df: "\<forall>q \<in> set (pairs cs). table_strength ?tbl q \<noteq> None"
    by auto
  obtain a b where ab: "pairs cs ! i = (a, b)" by (cases "pairs cs ! i")
  have mem: "(a, b) \<in> set (pairs cs)" using i(1) ab by (metis nth_mem)
  have "is_first_max (pair_strength ?tbl) (pairs cs) (a, b)"
    unfolding is_first_max_def using i le ab by (intro exI [of _ i]) auto
  with mem i ab l1 l2 p' cs' df show ?thesis by (intro exI [of _ a] exI [of _ b]) auto
qed



lemma alloc_round_tbl:
  assumes "alloc_round k (p, cs) = Inr (p', cs')"
  shows "starting_strengths p' = starting_strengths p"
  using alloc_round_Inr [OF assms] by auto

lemma allocate_cards_Inr:
  assumes "allocate_cards p cs = Inr p'"
  shows "\<exists>c0 h2 h1 h0.
           sort_cards_by_rank cs = Inr c0
         \<and> is_first_max (pair_strength (starting_strengths p)) (pairs c0) h2
         \<and> is_first_max (pair_strength (starting_strengths p)) (pairs (remove_pair h2 c0)) h1
         \<and> is_first_max (pair_strength (starting_strengths p))
              (pairs (remove_pair h1 (remove_pair h2 c0))) h0
         \<and> (\<forall>q \<in> set (pairs c0). table_strength (starting_strengths p) q \<noteq> None)
         \<and> h2 \<in> set (pairs c0) \<and> h1 \<in> set (pairs (remove_pair h2 c0))
         \<and> h0 \<in> set (pairs (remove_pair h1 (remove_pair h2 c0)))
         \<and> 2 < length (board_allocations p) \<and> 2 < length (hole_strengths p)
         \<and> board_allocations p' = (board_allocations p)
              [2 := [fst h2, snd h2], 1 := [fst h1, snd h1], 0 := [fst h0, snd h0]]
         \<and> hole_strengths p' = (hole_strengths p)
              [2 := pair_strength (starting_strengths p) h2,
               1 := pair_strength (starting_strengths p) h1,
               0 := pair_strength (starting_strengths p) h0]"
proof -
  let ?tbl = "starting_strengths p"
  from assms obtain c0 p1 c1 p2 c2 c3 where c0: "sort_cards_by_rank cs = Inr c0"
    and r0: "alloc_round 0 (p, c0) = Inr (p1, c1)"
    and r1: "alloc_round 1 (p1, c1) = Inr (p2, c2)"
    and r2: "alloc_round 2 (p2, c2) = Inr (p', c3)"
    by (auto simp: allocate_cards_def ebind_eq_Inr)
  from alloc_round_Inr [OF r0] obtain a2 b2 where
    h2: "is_first_max (pair_strength ?tbl) (pairs c0) (a2, b2)" "(a2, b2) \<in> set (pairs c0)"
    and df: "\<forall>q \<in> set (pairs c0). table_strength ?tbl q \<noteq> None"
    and l2: "2 < length (board_allocations p)" "2 < length (hole_strengths p)"
    and p1: "p1 = p\<lparr>board_allocations := (board_allocations p)[2 := [a2, b2]],
                    hole_strengths := (hole_strengths p)[2 := pair_strength ?tbl (a2, b2)]\<rparr>"
    and c1: "c1 = remove_pair (a2, b2) c0"
    by (auto simp: remove_pair_def)
  have t1: "starting_strengths p1 = ?tbl" by (simp add: p1)
  from alloc_round_Inr [OF r1] obtain a1 b1 where
    h1: "is_first_max (pair_strength ?tbl) (pairs c1) (a1, b1)" "(a1, b1) \<in> set (pairs c1)"
    and p2: "p2 = p1\<lparr>board_allocations := (board_allocations p1)[1 := [a1, b1]],
                    hole_strengths := (hole_strengths p1)[1 := pair_strength ?tbl (a1, b1)]\<rparr>"
    and c2: "c2 = remove_pair (a1, b1) c1"
    by (auto simp: remove_pair_def t1)
  have t2: "starting_strengths p2 = ?tbl" by (simp add: p2 t1)
  from alloc_round_Inr [OF r2] obtain a0 b0 where
    h0: "is_first_max (pair_strength ?tbl) (pairs c2) (a0, b0)" "(a0, b0) \<in> set (pairs c2)"
    and p3: "p' = p2\<lparr>board_allocations := (board_allocations p2)[0 := [a0, b0]],
                    hole_strengths := (hole_strengths p2)[0 := pair_strength ?tbl (a0, b0)]\<rparr>"
    by (auto simp: t2)
  show ?thesis
    apply (rule exI [of _ c0], rule exI [of _ "(a2, b2)"], rule exI [of _ "(a1, b1)"],
        rule exI [of _ "(a0, b0)"])
    using c0 h2 h1 h0 l2 df by (simp add: c1 c2 p1 p2 p3)
qed

lemma upd3_nth:
  assumes "2 < length xs"
  shows "xs[2 := a, 1 := b, 0 := c] ! 2 = a" "xs[2 := a, 1 := b, 0 := c] ! 1 = b"
    "xs[2 := a, 1 := b, 0 := c] ! 0 = c"
proof -
  from assms have l: "0 < length xs" "Suc 0 < length xs" "2 < length xs" by auto
  show "xs[2 := a, 1 := b, 0 := c] ! 2 = a" using l by simp
  show "xs[2 := a, 1 := b, 0 := c] ! 1 = b" using l by simp
  show "xs[2 := a, 1 := b, 0 := c] ! 0 = c" using l by simp
qed

text \<open>
  Claim C8. The selection loop is a greedy maximum. When \<open>allocate_cards\<close> returns, the
  hand on board 2 is a pair of maximal table strength among all pairs of the sorted
  cards, the first such pair in encounter order; the hand on board 1 is the first
  maximal pair among the cards left after removing it, and the hand on board 0 the
  first maximal pair among the cards left after removing both. Every pair scanned has
  a strength in the table.
\<close>

theorem allocate_cards_greedy:
  assumes "allocate_cards p my_cards = Inr p'"
  shows "\<exists>c0 h2 h1 h0.
           sort_cards_by_rank my_cards = Inr c0
         \<and> (\<forall>q \<in> set (pairs c0). table_strength (starting_strengths p) q \<noteq> None)
         \<and> is_first_max (pair_strength (starting_strengths p)) (pairs c0) h2
         \<and> is_first_max (pair_strength (starting_strengths p)) (pairs (remove_pair h2 c0)) h1
         \<and> is_first_max (pair_strength (starting_strengths p))
              (pairs (remove_pair h1 (remove_pair h2 c0))) h0
         \<and> board_allocations p' ! 2 = [fst h2, snd h2]
         \<and> board_allocations p' ! 1 = [fst h1, snd h1]
         \<and> board_allocations p' ! 0 = [fst h0, snd h0]"
proof -
  from allocate_cards_Inr [OF assms] obtain c0 h2 h1 h0 where
    *: "sort_cards_by_rank my_cards = Inr c0"
     "is_first_max (pair_strength (starting_strengths p)) (pairs c0) h2"
     "is_first_max (pair_strength (starting_strengths p)) (pairs (remove_pair h2 c0)) h1"
     "is_first_max (pair_strength (starting_strengths p))
              (pairs (remove_pair h1 (remove_pair h2 c0))) h0"
     "2 < length (board_allocations p)"
     "board_allocations p' = (board_allocations p)
              [2 := [fst h2, snd h2], 1 := [fst h1, snd h1], 0 := [fst h0, snd h0]]"
     "\<forall>q \<in> set (pairs c0). table_strength (starting_strengths p) q \<noteq> None"
    by blast
  have "board_allocations p' ! 2 = [fst h2, snd h2]"
    "board_allocations p' ! 1 = [fst h1, snd h1]" "board_allocations p' ! 0 = [fst h0, snd h0]"
    by (simp_all only: *(6) upd3_nth [OF *(5)])
  with *(1-4,7) show ?thesis by blast
qed

lemma is_first_max_ge: "is_first_max f ps h \<Longrightarrow> q \<in> set ps \<Longrightarrow> f q \<le> f h"
  by (auto simp: is_first_max_def in_set_conv_nth)

text \<open>
  Claim C9. After \<open>allocate_cards\<close> the recorded strengths do not increase from the back
  board down: \<open>hole_strengths[2] \<ge> hole_strengths[1] \<ge> hole_strengths[0]\<close>.
\<close>

theorem allocate_cards_strengths_ordered:
  assumes "allocate_cards p my_cards = Inr p'"
  shows "hole_strengths p' ! 2 \<ge> hole_strengths p' ! 1 \<and> hole_strengths p' ! 1 \<ge> hole_strengths p' ! 0"
proof -
  let ?f = "pair_strength (starting_strengths p)"
  from allocate_cards_Inr [OF assms] obtain c0 h2 h1 h0 where
    m2: "is_first_max ?f (pairs c0) h2"
    and m1: "is_first_max ?f (pairs (remove_pair h2 c0)) h1"
    and i1: "h1 \<in> set (pairs (remove_pair h2 c0))"
    and i0: "h0 \<in> set (pairs (remove_pair h1 (remove_pair h2 c0)))"
    and len: "2 < length (hole_strengths p)"
    and hs: "hole_strengths p' = (hole_strengths p)[2 := ?f h2, 1 := ?f h1, 0 := ?f h0]"
    by blast
  have sub: "set (pairs (remove_pair h cs)) \<subseteq> set (pairs cs)" for h :: "string \<times> string" and cs
    unfolding remove_pair_def using pairs_remove1_subset by (metis subset_trans)
  from i1 sub have "h1 \<in> set (pairs c0)" by blast
  with m2 have a: "?f h1 \<le> ?f h2" by (rule is_first_max_ge)
  from i0 sub have "h0 \<in> set (pairs (remove_pair h2 c0))" by blast
  with m1 have b: "?f h0 \<le> ?f h1" by (rule is_first_max_ge)
  have "hole_strengths p' ! 2 = ?f h2" "hole_strengths p' ! 1 = ?f h1"
    "hole_strengths p' ! 0 = ?f h0" by (simp_all only: hs upd3_nth [OF len])
  with a b show ?thesis by simp
qed


lemma emap_Inr_length: "emap f xs = Inr ys \<Longrightarrow> length ys = length xs"
  by (induction xs arbitrary: ys) (auto simp: ebind_eq_Inr)

lemma emap_defined: "(\<forall>x \<in> set xs. \<exists>y. f x = Inr y) \<Longrightarrow> \<exists>ys. emap f xs = Inr ys"
proof (induction xs)
  case Nil
  show ?case by simp
next
  case (Cons x xs)
  then obtain y ys where "f x = Inr y" "emap f xs = Inr ys" by auto
  then show ?case by simp
qed

lemma sort_cards_by_rank_mset: "sort_cards_by_rank cs = Inr c0 \<Longrightarrow> mset c0 = mset cs"
proof -
  assume "sort_cards_by_rank cs = Inr c0"
  then obtain ks where ks: "emap card_rank cs = Inr ks"
    and c0: "c0 = map snd (sort_key (\<lambda>kc. - fst kc) (zip ks cs))"
    by (auto simp: sort_cards_by_rank_def ebind_eq_Inr)
  have "length ks = length cs" using ks by (rule emap_Inr_length)
  then have "map snd (zip ks cs) = cs" by simp
  then have "mset (map snd (zip ks cs)) = mset cs" by simp
  moreover have "mset c0 = mset (map snd (zip ks cs))"
    unfolding c0 by (simp only: mset_map mset_sort)
  ultimately show ?thesis by simp
qed

lemma scan_defined:
  "(\<forall>q \<in> set ps. table_strength tbl q \<noteq> None) \<Longrightarrow> \<exists>r. scan tbl ps best = Inr r"
proof (induction ps arbitrary: best)
  case Nil
  show ?case by simp
next
  case (Cons ab ps)
  then obtain v where "table_strength tbl (fst ab, snd ab) = Some v" by auto
  then have "try_pair tbl (fst ab) (snd ab) (fst best, snd best)
      = Inr (if v > snd best then ([fst ab, snd ab], v) else (fst best, snd best))"
    by (rule try_pair_defined)
  with Cons show ?case by simp
qed

lemma remove_pair_mset:
  assumes "(a, b) \<in> set (pairs cs)"
  shows "mset (remove_pair (a, b) cs) + {#a, b#} = mset cs"
proof -
  from in_pairs_mset [OF assms] have sub: "{#a, b#} \<subseteq># mset cs" .
  have "mset (remove_pair (a, b) cs) = mset cs - {#a, b#}"
    by (simp add: remove_pair_def add_mset_commute)
  then have "mset (remove_pair (a, b) cs) + {#a, b#} = mset cs - {#a, b#} + {#a, b#}"
    by (simp only:)
  also have "\<dots> = mset cs" using sub by (rule subset_mset.diff_add)
  finally show ?thesis .
qed

lemma hole_key_card_rank:
  assumes "hole_list_to_key [a, b] = Inr k"
  shows "\<exists>r. card_rank a = Inr r"
  using assms by (auto simp: hole_list_to_key_def card_rank_def ebind_eq_Inr index_eq_Inr)

lemma alloc_round_defined:
  assumes d: "\<forall>q \<in> set (pairs cs). \<exists>v. table_strength (starting_strengths p) q = Some v \<and> 0 < v"
    and ne: "pairs cs \<noteq> []" and dist: "distinct cs"
    and l1: "2 - k < length (board_allocations p)" and l2: "2 - k < length (hole_strengths p)"
  shows "\<exists>r. alloc_round k (p, cs) = Inr r"
proof -
  let ?tbl = "starting_strengths p"
  from d have "\<forall>q \<in> set (pairs cs). table_strength ?tbl q \<noteq> None" by auto
  from scan_defined [OF this] obtain t m where sc: "scan ?tbl (pairs cs) ([], 0) = Inr (t, m)"
    by (metis surj_pair)
  from ne obtain q where q: "q \<in> set (pairs cs)" by (cases "pairs cs") auto
  with d have "0 < pair_strength ?tbl q" by (auto simp: pair_strength_def)
  moreover from scan_Inr [OF sc] q have "pair_strength ?tbl q \<le> m" by blast
  ultimately have "0 < m" by simp
  with scan_Inr [OF sc] obtain i where i: "i < length (pairs cs)"
    "t = [fst (pairs cs ! i), snd (pairs cs ! i)]" by auto
  obtain a b where ab: "pairs cs ! i = (a, b)" by (cases "pairs cs ! i")
  have mem: "(a, b) \<in> set (pairs cs)" using i(1) ab by (metis nth_mem)
  from in_pairs_mem [OF mem] in_pairs_distinct [OF dist mem]
  have "a \<in> set cs" "b \<in> set (remove1 a cs)" by (simp_all add: dist)
  with sc i ab l1 l2 show ?thesis
    by (simp add: alloc_round_def Let_def outer_loop_scan store_def index_def list_remove_def)
qed


lemma alloc_round_step:
  assumes d: "\<forall>a \<in> set cs. \<forall>b \<in> set cs. a \<noteq> b \<longrightarrow>
               (\<exists>v. table_strength (starting_strengths p) (a, b) = Some v \<and> 0 < v)"
    and len: "2 \<le> length cs" and dist: "distinct cs"
    and l1: "2 - k < length (board_allocations p)" and l2: "2 - k < length (hole_strengths p)"
  shows "\<exists>p' a b. alloc_round k (p, cs) = Inr (p', remove_pair (a, b) cs)
           \<and> (a, b) \<in> set (pairs cs)
           \<and> board_allocations p' = (board_allocations p)[2 - k := [a, b]]
           \<and> length (hole_strengths p') = length (hole_strengths p)
           \<and> starting_strengths p' = starting_strengths p"
proof -
  have "\<forall>q \<in> set (pairs cs). \<exists>v. table_strength (starting_strengths p) q = Some v \<and> 0 < v"
  proof
    fix q assume q: "q \<in> set (pairs cs)"
    obtain a b where ab: "q = (a, b)" by (cases q)
    from q ab in_pairs_mem [of a b cs] in_pairs_distinct [OF dist, of a b]
    have "a \<in> set cs" "b \<in> set cs" "a \<noteq> b" by simp_all
    with d ab show "\<exists>v. table_strength (starting_strengths p) q = Some v \<and> 0 < v" by blast
  qed
  moreover from len have "pairs cs \<noteq> []"
    by (cases cs; cases "tl cs") auto
  ultimately obtain r where r: "alloc_round k (p, cs) = Inr r"
    using alloc_round_defined [OF _ _ dist l1 l2] by blast
  obtain p' cs' where r_eq: "r = (p', cs')" by (cases r)
  from alloc_round_Inr [OF r [unfolded r_eq]] obtain a b where
    ab: "(a, b) \<in> set (pairs cs)"
    "p' = p\<lparr>board_allocations := (board_allocations p)[2 - k := [a, b]],
                    hole_strengths := (hole_strengths p)[2 - k := pair_strength (starting_strengths p) (a, b)]\<rparr>"
    "cs' = remove1 b (remove1 a cs)" by blast
  show ?thesis
    apply (rule exI [of _ p'], rule exI [of _ a], rule exI [of _ b])
    using r r_eq ab by (simp add: remove_pair_def)
qed

lemma remove_pair_props:
  assumes "(a, b) \<in> set (pairs cs)" "distinct cs"
  shows "distinct (remove_pair (a, b) cs)" "set (remove_pair (a, b) cs) \<subseteq> set cs"
    "length (remove_pair (a, b) cs) + 2 = length cs"
proof -
  show "distinct (remove_pair (a, b) cs)" using assms(2) by (simp add: remove_pair_def)
  show "set (remove_pair (a, b) cs) \<subseteq> set cs"
    using assms(2) by (auto simp: remove_pair_def set_remove1_eq)
  from remove_pair_mset [OF assms(1)]
  have "size (mset (remove_pair (a, b) cs) + {#a, b#}) = size (mset cs)" by simp
  then show "length (remove_pair (a, b) cs) + 2 = length cs" by simp
qed

lemma positive_in_tableD:
  "positive_in_table tbl ab \<Longrightarrow> \<exists>v. table_strength tbl ab = Some v \<and> 0 < v"
  by (cases "table_strength tbl ab") (simp_all add: positive_in_table_def)

text \<open>
  Claim C4. For six distinct cards, every pair of which has a key in the
  starting-strength table with a positive strength, \<open>allocate_cards\<close> returns, and the
  three hands it records have two cards each and together hold exactly the six cards:
  none omitted, none twice, so the hands are pairwise disjoint.
\<close>

theorem allocate_cards_partition:
  assumes len: "length my_cards = 6" and dist: "distinct my_cards"
    and pos: "\<forall>a \<in> set my_cards. \<forall>b \<in> set my_cards. a \<noteq> b \<longrightarrow>
               positive_in_table (starting_strengths p) (a, b)"
    and l1: "length (board_allocations p) = 3" and l2: "length (hole_strengths p) = 3"
  shows "\<exists>p' h0 h1 h2. allocate_cards p my_cards = Inr p'
           \<and> board_allocations p' = [h0, h1, h2]
           \<and> length h0 = 2 \<and> length h1 = 2 \<and> length h2 = 2
           \<and> mset (h0 @ h1 @ h2) = mset my_cards
           \<and> distinct (h0 @ h1 @ h2)"
proof -
  let ?tbl = "starting_strengths p"
  from pos have tbl: "\<forall>a \<in> set my_cards. \<forall>b \<in> set my_cards. a \<noteq> b \<longrightarrow>
               (\<exists>v. table_strength (starting_strengths p) (a, b) = Some v \<and> 0 < v)"
    using positive_in_tableD by blast
  have "\<forall>c \<in> set my_cards. \<exists>r. card_rank c = Inr r"
  proof
    fix c assume c: "c \<in> set my_cards"
    have "\<exists>b \<in> set my_cards. b \<noteq> c"
    proof (rule ccontr)
      assume "\<not> (\<exists>b \<in> set my_cards. b \<noteq> c)"
      then have "set my_cards \<subseteq> {c}" by auto
      then have "card (set my_cards) \<le> 1" by (metis card_mono finite.emptyI finite.insertI card_1_singleton_iff is_singletonI is_singleton_altdef)
      with dist len show False by (simp add: distinct_card)
    qed
    then obtain b where "b \<in> set my_cards" "b \<noteq> c" by blast
    with tbl c obtain v where "table_strength ?tbl (c, b) = Some v" by metis
    then obtain k where "hole_list_to_key [c, b] = Inr k"
      by (auto simp: table_strength_def split: sum.splits)
    then show "\<exists>r. card_rank c = Inr r" by (rule hole_key_card_rank)
  qed
  from emap_defined [OF this] obtain ks where "emap card_rank my_cards = Inr ks" by blast
  then obtain c0 where c0: "sort_cards_by_rank my_cards = Inr c0"
    by (simp add: sort_cards_by_rank_def)
  from sort_cards_by_rank_mset [OF c0] have m0: "mset c0 = mset my_cards" .
  then have s0: "set c0 = set my_cards" by (rule mset_eq_setD)
  from m0 have n0: "length c0 = 6" using len by (metis size_mset)
  from m0 dist have d0: "distinct c0" by (metis distinct_count_atmost_1 set_mset_mset)
  have t0: "\<forall>a \<in> set c0. \<forall>b \<in> set c0. a \<noteq> b \<longrightarrow>
               (\<exists>v. table_strength (starting_strengths p) (a, b) = Some v \<and> 0 < v)"
    using tbl s0 by simp
  from alloc_round_step [OF t0 _ d0, of 0] n0 l1 l2
  obtain p1 a2 b2 where r0: "alloc_round 0 (p, c0) = Inr (p1, remove_pair (a2, b2) c0)"
    and i2: "(a2, b2) \<in> set (pairs c0)"
    and b1: "board_allocations p1 = (board_allocations p)[2 := [a2, b2]]"
    and hl1: "length (hole_strengths p1) = 3" and st1: "starting_strengths p1 = ?tbl"
    by auto
  let ?c1 = "remove_pair (a2, b2) c0"
  note c1 = remove_pair_props [OF i2 d0]
  have t1: "\<forall>a \<in> set ?c1. \<forall>b \<in> set ?c1. a \<noteq> b \<longrightarrow>
               (\<exists>v. table_strength (starting_strengths p1) (a, b) = Some v \<and> 0 < v)"
    using t0 c1(2) st1 by auto
  from alloc_round_step [OF t1 _ c1(1), of 1] c1(3) n0 b1 l1 hl1
  obtain p2 a1 b1' where r1: "alloc_round 1 (p1, ?c1) = Inr (p2, remove_pair (a1, b1') ?c1)"
    and i1: "(a1, b1') \<in> set (pairs ?c1)"
    and b2: "board_allocations p2 = (board_allocations p1)[1 := [a1, b1']]"
    and hl2: "length (hole_strengths p2) = 3" and st2: "starting_strengths p2 = ?tbl"
    by (auto simp: st1)
  let ?c2 = "remove_pair (a1, b1') ?c1"
  note c2 = remove_pair_props [OF i1 c1(1)]
  have t2: "\<forall>a \<in> set ?c2. \<forall>b \<in> set ?c2. a \<noteq> b \<longrightarrow>
               (\<exists>v. table_strength (starting_strengths p2) (a, b) = Some v \<and> 0 < v)"
    using t1 c2(2) st1 st2 by auto
  from alloc_round_step [OF t2 _ c2(1), of 2] c2(3) c1(3) n0 b1 b2 l1 hl2
  obtain p3 a0 b0 where r2: "alloc_round 2 (p2, ?c2) = Inr (p3, remove_pair (a0, b0) ?c2)"
    and i0: "(a0, b0) \<in> set (pairs ?c2)"
    and b3: "board_allocations p3 = (board_allocations p2)[0 := [a0, b0]]"
    by auto
  note c3 = remove_pair_props [OF i0 c2(1)]
  from c3(3) c2(3) c1(3) n0 have "remove_pair (a0, b0) ?c2 = []" by simp
  with remove_pair_mset [OF i0] have e2: "mset ?c2 = {#a0, b0#}" by simp
  with remove_pair_mset [OF i1] have e1: "mset ?c1 = {#a0, b0#} + {#a1, b1'#}" by simp
  with remove_pair_mset [OF i2] have e0: "mset c0 = {#a0, b0#} + {#a1, b1'#} + {#a2, b2#}" by simp
  from l1 obtain x y z where xyz: "board_allocations p = [x, y, z]"
    by (cases "board_allocations p"; cases "tl (board_allocations p)";
        cases "tl (tl (board_allocations p))") auto
  have alloc: "allocate_cards p my_cards = Inr p3"
    using r0 r1 r2 by (simp add: allocate_cards_def c0)
  have ba: "board_allocations p3 = [[a0, b0], [a1, b1'], [a2, b2]]"
    by (simp add: b3 b2 b1 xyz)
  have ms: "mset ([a0, b0] @ [a1, b1'] @ [a2, b2]) = mset my_cards"
    using e0 m0 by simp
  then have "distinct ([a0, b0] @ [a1, b1'] @ [a2, b2])"
    using dist by (metis distinct_count_atmost_1 set_mset_mset)
  with alloc ba ms show ?thesis by (metis length_Cons list.size(3) numeral_2_eq_2)
qed

subsection \<open>The allocator on the specification's example hand\<close>

lemma example_sorted:
  "sort_cards_by_rank example_cards = Inr [''As'', ''Ah'', ''Kd'', ''Ks'', ''2c'', ''2d'']"
  by (simp add: sort_cards_by_rank_def example_cards_def card_rank_def index_def
      rank_to_numeric_def lookup_def RANK_DICT_def)

lemma example_allocation: "allocate_cards example_player example_cards = Inr example_allocated"
  by (simp add: allocate_cards_def example_sorted alloc_round_def Let_def example_player_def
      example_allocated_def example_table_def try_pair_def hole_list_to_key_def index_def
      store_def list_remove_def rank_to_numeric_def lookup_def RANK_DICT_def)

lemma example_table_positive:
  "\<forall>a \<in> set example_cards. \<forall>b \<in> set example_cards. a \<noteq> b \<longrightarrow>
     positive_in_table (starting_strengths example_player) (a, b)"
  by (simp add: example_cards_def example_player_def example_table_def table_strength_def
      positive_in_table_def
      hole_list_to_key_def index_def rank_to_numeric_def lookup_def RANK_DICT_def)

theorem allocate_cards_partition_witness:
  "length example_cards = 6 \<and> distinct example_cards
   \<and> length (board_allocations example_player) = 3
   \<and> length (hole_strengths example_player) = 3
   \<and> (\<exists>p' h0 h1 h2. allocate_cards example_player example_cards = Inr p'
           \<and> board_allocations p' = [h0, h1, h2]
           \<and> length h0 = 2 \<and> length h1 = 2 \<and> length h2 = 2
           \<and> mset (h0 @ h1 @ h2) = mset example_cards
           \<and> distinct (h0 @ h1 @ h2))"
proof -
  have a: "length example_cards = 6" and b: "distinct example_cards"
    by (simp_all add: example_cards_def)
  have c: "length (board_allocations example_player) = 3"
    and d: "length (hole_strengths example_player) = 3"
    by (simp_all add: example_player_def)
  from allocate_cards_partition [OF a b example_table_positive c d] a b c d
  show ?thesis by blast
qed

theorem allocate_cards_greedy_witness:
  "allocate_cards example_player example_cards = Inr example_allocated
   \<and> (\<exists>c0 h2 h1 h0.
           sort_cards_by_rank example_cards = Inr c0
         \<and> (\<forall>q \<in> set (pairs c0). table_strength (starting_strengths example_player) q \<noteq> None)
         \<and> is_first_max (pair_strength (starting_strengths example_player)) (pairs c0) h2
         \<and> is_first_max (pair_strength (starting_strengths example_player))
              (pairs (remove_pair h2 c0)) h1
         \<and> is_first_max (pair_strength (starting_strengths example_player))
              (pairs (remove_pair h1 (remove_pair h2 c0))) h0
         \<and> board_allocations example_allocated ! 2 = [fst h2, snd h2]
         \<and> board_allocations example_allocated ! 1 = [fst h1, snd h1]
         \<and> board_allocations example_allocated ! 0 = [fst h0, snd h0])"
  using allocate_cards_greedy [OF example_allocation] example_allocation by blast

theorem allocate_cards_strengths_ordered_witness:
  "allocate_cards example_player example_cards = Inr example_allocated
   \<and> hole_strengths example_allocated ! 2 \<ge> hole_strengths example_allocated ! 1
   \<and> hole_strengths example_allocated ! 1 \<ge> hole_strengths example_allocated ! 0"
  using allocate_cards_strengths_ordered [OF example_allocation] example_allocation by blast

section \<open>Rounding to the nearest double\<close>



lemma binade_eq:
  assumes "2 powi e \<le> \<bar>x\<bar>" "\<bar>x\<bar> < 2 powi (e + 1)" "- 1022 \<le> e"
  shows "binade x = e"
proof -
  have pos: "0 < \<bar>x\<bar>" using assms(1) by (smt (verit) zero_less_power_int)
  have a: "2 powr real_of_int e = (2::real) powi e"
    by (rule powr_real_of_int') simp_all
  have b: "2 powr real_of_int (e + 1) = (2::real) powi (e + 1)"
    by (rule powr_real_of_int') simp_all
  have "2 powr real_of_int e \<le> \<bar>x\<bar> \<and> \<bar>x\<bar> < 2 powr real_of_int (e + 1)"
    using assms(1,2) by (simp only: a b)
  then have "\<lfloor>log 2 \<bar>x\<bar>\<rfloor> = e"
    using pos by (subst floor_log_eq_powr_iff) simp_all
  with assms(3) show ?thesis by (simp add: binade_def)
qed

lemma fl_eval:
  assumes "2 powi e \<le> \<bar>x\<bar>" "\<bar>x\<bar> < 2 powi (e + 1)" "- 1022 \<le> e"
  shows "fl x = of_int (round_half_even (x / 2 powi (e - 52))) * 2 powi (e - 52)"
proof -
  have "x \<noteq> 0" using assms(1) by (smt (verit) zero_less_power_int)
  then show ?thesis by (simp add: fl_def binade_eq [OF assms])
qed







lemma round_half_even_of_int [simp]: "round_half_even (of_int n) = n"
  by (simp add: round_half_even_def)

lemma round_half_even_upper: "y \<le> of_int k \<Longrightarrow> round_half_even y \<le> k"
proof -
  assume le: "y \<le> of_int k"
  have f: "\<lfloor>y\<rfloor> \<le> k" using le by (simp add: floor_le_iff)
  show ?thesis
  proof (cases "y = of_int \<lfloor>y\<rfloor>")
    case True
    then have "round_half_even y = \<lfloor>y\<rfloor>" by (metis round_half_even_of_int)
    with f show ?thesis by simp
  next
    case False
    then have "of_int \<lfloor>y\<rfloor> < y" by (metis of_int_floor_le order_less_le)
    with le have "of_int \<lfloor>y\<rfloor> < (of_int k :: real)" by linarith
    then have "\<lfloor>y\<rfloor> < k" by simp
    then have "\<lfloor>y\<rfloor> + 1 \<le> k" by simp
    then show ?thesis using f by (auto simp: round_half_even_def Let_def)
  qed
qed

lemma round_half_even_lower: "of_int k \<le> y \<Longrightarrow> k \<le> round_half_even y"
proof -
  assume "of_int k \<le> y"
  then have "k \<le> \<lfloor>y\<rfloor>" by (simp add: le_floor_iff)
  then show ?thesis by (auto simp: round_half_even_def Let_def)
qed

lemma binade_ge: "- 1022 \<le> binade x"
  by (simp add: binade_def)

lemma binade_upper:
  assumes "x \<noteq> 0"
  shows "\<bar>x\<bar> < 2 powi (binade x + 1)"
proof -
  have pos: "0 < \<bar>x\<bar>" using assms by simp
  define k where "k = \<lfloor>log 2 \<bar>x\<bar>\<rfloor>"
  have "\<lfloor>log 2 \<bar>x\<bar>\<rfloor> = k" by (simp add: k_def)
  then have "\<bar>x\<bar> < 2 powr real_of_int (k + 1)"
    using pos by (subst (asm) floor_log_eq_powr_iff) simp_all
  also have "2 powr real_of_int (k + 1) = (2::real) powi (k + 1)"
    by (rule powr_real_of_int') simp_all
  also have "\<dots> \<le> 2 powi (binade x + 1)"
    by (rule power_int_increasing) (simp_all add: binade_def k_def)
  finally show ?thesis .
qed

lemma binade_lower:
  assumes "x \<noteq> 0" "- 1022 < binade x"
  shows "2 powi (binade x) \<le> \<bar>x\<bar>"
proof -
  have pos: "0 < \<bar>x\<bar>" using assms by simp
  define k where "k = \<lfloor>log 2 \<bar>x\<bar>\<rfloor>"
  from assms(2) have bk: "binade x = k" by (simp add: binade_def k_def max_def split: if_splits)
  have "\<lfloor>log 2 \<bar>x\<bar>\<rfloor> = k" by (simp add: k_def)
  then have "2 powr real_of_int k \<le> \<bar>x\<bar>"
    using pos by (subst (asm) floor_log_eq_powr_iff) simp_all
  moreover have "2 powr real_of_int k = (2::real) powi k"
    by (rule powr_real_of_int') simp_all
  ultimately show ?thesis by (simp add: bk)
qed

lemma binade_small:
  assumes "x \<noteq> 0" "\<bar>x\<bar> < 2 powi (- 1022)"
  shows "binade x = - 1022"
proof (rule ccontr)
  assume "binade x \<noteq> - 1022"
  with binade_ge [of x] have gt: "- 1022 < binade x" by simp
  have "(2::real) powi (- 1022) \<le> 2 powi (binade x)"
    by (rule power_int_increasing) (use gt in simp_all)
  also have "\<dots> \<le> \<bar>x\<bar>" using assms(1) gt by (rule binade_lower)
  finally show False using assms(2) by simp
qed


lemma fl_0 [simp]: "fl 0 = 0"
  by (simp add: fl_def)

lemma fl_idem [simp]: "fl (fl x) = fl x"
proof (cases "x = 0")
  case True
  then show ?thesis by simp
next
  case False
  define e where "e = binade x"
  define u :: real where "u = 2 powi (e - 52)"
  define q where "q = x / u"
  define n where "n = round_half_even q"
  have upos: "0 < u" by (simp add: u_def)
  have y: "fl x = of_int n * u" using False by (simp add: fl_def e_def u_def n_def q_def)
  have u53: "2 powi (e + 1) = 2 ^ 53 * u"
    unfolding u_def by (simp add: power_int_diff power_int_add)
  have u52: "2 powi e = 2 ^ 52 * u"
    unfolding u_def by (simp add: power_int_diff)
  have "\<bar>x\<bar> < 2 powi (e + 1)" unfolding e_def using False by (rule binade_upper)
  then have "\<bar>x\<bar> < 2 ^ 53 * u" by (simp only: u53)
  then have ax: "\<bar>q\<bar> < 2 ^ 53" using upos by (simp add: q_def field_simps)
  then have qb: "q \<le> of_int (2 ^ 53)" "of_int (- (2 ^ 53)) \<le> q" by (simp_all add: abs_less_iff)
  have nb: "n \<le> 2 ^ 53" "- (2 ^ 53) \<le> n"
    unfolding n_def using qb by (simp_all only: round_half_even_upper round_half_even_lower)
  have fixed: "fl (of_int n * u) = of_int n * u" if b: "binade (of_int n * u) = e"
  proof (cases "n = 0")
    case True
    then show ?thesis by simp
  next
    case False
    then have "of_int n * u \<noteq> 0" using upos by simp
    then show ?thesis using upos by (simp add: fl_def b u_def [symmetric])
  qed
  show ?thesis
  proof (cases "\<bar>n\<bar> = 2 ^ 53")
    case True
    then have yv: "\<bar>of_int n * u\<bar> = 2 powi (e + 1)"
      using upos by (simp add: abs_mult u53 flip: of_int_abs)
    have "- 1022 \<le> e" unfolding e_def by (rule binade_ge)
    then have b: "binade (of_int n * u) = e + 1"
      by (intro binade_eq) (simp_all add: yv power_int_strict_increasing)
    have ne: "of_int n * u \<noteq> 0" using yv by (smt (verit) zero_less_power_int)
    from True have "n = 2 ^ 53 \<or> n = - (2 ^ 53)" by linarith
    then have "n = 2 * 2 ^ 52 \<or> n = 2 * (- (2 ^ 52))" by simp
    then obtain m where m: "n = 2 * m" by blast
    have "of_int n * u / 2 powi (e + 1 - 52) = of_int m"
      unfolding u_def m by (simp add: power_int_diff power_int_add)
    then have "fl (of_int n * u) = of_int m * 2 powi (e + 1 - 52)"
      using ne by (simp add: fl_def b)
    also have "\<dots> = of_int n * u"
      unfolding u_def m by (simp add: power_int_diff power_int_add)
    finally show ?thesis by (simp add: y)
  next
    case nmax: False
    with nb have nlt: "\<bar>n\<bar> < 2 ^ 53" by simp
    show ?thesis
    proof (cases "n = 0")
      case True
      then show ?thesis by (simp add: y)
    next
      case n0: False
      have yne: "of_int n * u \<noteq> 0" using n0 upos by simp
      have yub: "\<bar>of_int n * u\<bar> < 2 powi (e + 1)"
      proof -
        from nlt have "real_of_int \<bar>n\<bar> < real_of_int (2 ^ 53)" by (simp only: of_int_less_iff)
        then have "\<bar>real_of_int n\<bar> < 2 ^ 53" by simp
        then show ?thesis using upos by (simp add: abs_mult u53)
      qed
      show ?thesis
      proof (cases "- 1022 < e")
        case True
        from True have "2 powi e \<le> \<bar>x\<bar>" unfolding e_def using False by (intro binade_lower) simp_all
        then have "2 ^ 52 * u \<le> \<bar>x\<bar>" by (simp only: u52)
        then have lx: "2 ^ 52 \<le> \<bar>q\<bar>" using upos by (simp add: q_def field_simps)
        have "2 ^ 52 \<le> \<bar>n\<bar>"
        proof (cases "0 \<le> q")
          case True
          with lx have "of_int (2 ^ 52) \<le> q" by simp
          then have "2 ^ 52 \<le> n" unfolding n_def by (rule round_half_even_lower)
          then show ?thesis by simp
        next
          case False
          with lx have "q \<le> of_int (- (2 ^ 52))" by simp
          then have "n \<le> - (2 ^ 52)" unfolding n_def by (rule round_half_even_upper)
          then show ?thesis by simp
        qed
        then have "real_of_int (2 ^ 52) \<le> real_of_int \<bar>n\<bar>" by (simp only: of_int_le_iff)
        then have "2 ^ 52 \<le> \<bar>real_of_int n\<bar>" by simp
        then have "2 powi e \<le> \<bar>of_int n * u\<bar>" using upos by (simp add: abs_mult u52)
        then have "binade (of_int n * u) = e" using yub True by (intro binade_eq) simp_all
        then show ?thesis by (simp add: y fixed)
      next
        case False
        with binade_ge [of x] have e: "e = - 1022" by (simp add: e_def)
        show ?thesis
        proof (cases "2 powi e \<le> \<bar>of_int n * u\<bar>")
          case True
          then have "binade (of_int n * u) = e" using yub e by (intro binade_eq) simp_all
          then show ?thesis by (simp add: y fixed)
        next
          case False
          then have "binade (of_int n * u) = - 1022" using yne e by (intro binade_small) simp_all
          then show ?thesis by (simp add: y fixed e)
        qed
      qed
    qed
  qed
qed


lemma fl_1 [simp]: "fl 1 = 1"
  by (subst fl_eval [of 0]) (simp_all add: round_half_even_def Let_def)

lemma fl_nonneg: "0 \<le> x \<Longrightarrow> 0 \<le> fl x"
proof (cases "x = 0")
  case True
  then show ?thesis by simp
next
  case False
  assume "0 \<le> x"
  then have "of_int 0 \<le> x / 2 powi (binade x - 52)" by simp
  then have "0 \<le> round_half_even (x / 2 powi (binade x - 52))" by (rule round_half_even_lower)
  then show ?thesis using False by (simp add: fl_def)
qed

lemma fl_le_1:
  assumes "0 \<le> x" "x \<le> 1"
  shows "fl x \<le> 1"
proof (cases "x = 0 \<or> x = 1")
  case True
  then show ?thesis by auto
next
  case False
  then have x: "0 < x" "x < 1" "x \<noteq> 0" using assms by simp_all
  define e where "e = binade x"
  define u :: real where "u = 2 powi (e - 52)"
  define q where "q = x / u"
  define n where "n = round_half_even q"
  have upos: "0 < u" by (simp add: u_def)
  have y: "fl x = of_int n * u" using x(3) by (simp add: fl_def e_def u_def n_def q_def)
  have u53: "2 powi (e + 1) = 2 ^ 53 * u"
    unfolding u_def by (simp add: power_int_diff power_int_add)
  have e_neg: "e \<le> - 1"
  proof (rule ccontr)
    assume "\<not> e \<le> - 1"
    then have e0: "0 \<le> e" by simp
    then have "(2::real) powi 0 \<le> 2 powi e" by (intro power_int_increasing) simp_all
    also have "\<dots> \<le> \<bar>x\<bar>" unfolding e_def using x(3) e0 by (intro binade_lower) (simp_all add: e_def)
    finally show False using x by simp
  qed
  have "\<bar>x\<bar> < 2 powi (e + 1)" unfolding e_def using x(3) by (rule binade_upper)
  then have "\<bar>x\<bar> < 2 ^ 53 * u" by (simp only: u53)
  then have "x < 2 ^ 53 * u" using x(1) by simp
  then have "q \<le> of_int (2 ^ 53)" using upos by (simp add: q_def field_simps)
  then have "n \<le> 2 ^ 53" unfolding n_def by (rule round_half_even_upper)
  then have "real_of_int n \<le> real_of_int (2 ^ 53)" by (simp only: of_int_le_iff)
  then have "real_of_int n * u \<le> 2 ^ 53 * u" using upos by simp
  also have "\<dots> = 2 powi (e + 1)" by (simp only: u53)
  also have "\<dots> \<le> 2 powi 0" using e_neg by (intro power_int_increasing) simp_all
  finally show ?thesis by (simp add: y)
qed

section \<open>The equity estimator: sampling and range\<close>


lemma iter_score_range: "0 \<le> iter_score ev private public d \<and> iter_score ev private public d \<le> 2"
  by (simp add: iter_score_def Let_def)

lemma random_sample_ok:
  "0 \<le> k \<Longrightarrow> k \<le> int (card population) \<Longrightarrow> random_sample dr population k = Inr (dr population (nat k))"
  by (simp add: random_sample_def)

lemma mc_loop_sum:
  assumes "0 \<le> k" "k \<le> int (card R)"
  shows "mc_loop draw ev private public R k n i score =
         Inr (score + (\<Sum>j<n. iter_score ev private public (draw (i + j) R (nat k))))"
proof (induction n arbitrary: i score)
  case 0
  show ?case by simp
next
  case (Suc n)
  let ?f = "\<lambda>j. iter_score ev private public (draw j R (nat k))"
  have shift: "(\<Sum>j<Suc n. ?f (i + j)) = ?f i + (\<Sum>j<n. ?f (Suc i + j))"
    by (simp add: sum.lessThan_Suc_shift del: sum.lessThan_Suc)
  have "mc_loop draw ev private public R k (Suc n) i score =
        mc_loop draw ev private public R k n (Suc i) (score + ?f i)"
    by (simp add: random_sample_ok [OF assms])
  also have "\<dots> = Inr (score + ?f i + (\<Sum>j<n. ?f (Suc i + j)))"
    by (rule Suc.IH)
  also have "\<dots> = Inr (score + (\<Sum>j<Suc n. ?f (i + j)))"
    by (simp only: shift add.assoc)
  finally show ?case .
qed

lemma deck_52: "distinct FULL_DECK \<and> length FULL_DECK = 52"
  by (simp add: FULL_DECK_def NUMS_def SUITS_def)

lemma card_diff_list: "finite A \<Longrightarrow> card A - length xs \<le> card (A - set xs)"
proof (induction xs arbitrary: A)
  case Nil
  show ?case by simp
next
  case (Cons x xs)
  have "A - set (x # xs) = (A - {x}) - set xs" by auto
  moreover have "card (A - {x}) - length xs \<le> card (A - {x} - set xs)"
    using Cons.prems by (intro Cons.IH) simp
  moreover have "card A - 1 \<le> card (A - {x})" using Cons.prems by (simp add: card_Diff_singleton_if)
  ultimately show ?case by simp
qed

lemma remaining_cards_card:
  "52 - length private - length public \<le> card (set FULL_DECK - set private - set public)"
proof -
  have c: "card (set FULL_DECK) = 52" using deck_52 by (simp add: distinct_card)
  have "card (set FULL_DECK) - length private \<le> card (set FULL_DECK - set private)"
    by (rule card_diff_list) simp
  moreover have "card (set FULL_DECK - set private) - length public
      \<le> card (set FULL_DECK - set private - set public)"
    by (rule card_diff_list) simp
  ultimately show ?thesis using c by simp
qed


text \<open>
  Claim C6. For a hand of two cards, community cards that match the street, and a
  positive sample count \<open>N\<close>, the estimator returns; in each iteration it draws
  \<open>2 + (5 - street)\<close> cards without replacement from the deck minus the known cards
  (two for the opponent, the rest to complete the board), scores 2 for a strict win of
  the evaluator, 1 for a tie and 0 for a loss, and returns \<open>score / (2 N)\<close> (rounded
  to a double), a value in \<open>[0, 1]\<close>. The cards drawn are those \<open>random.sample\<close>
  hands back, here \<open>draw i\<close> in iteration \<open>i\<close>.
\<close>

theorem public_eval_estimate:
  assumes iters: "0 < iters"
    and hand: "length private = 2"
    and st: "strt \<le> 5" "length public = strt"
    and sample: "\<forall>i < nat iters. is_sample (set FULL_DECK - set private - set public) (7 - strt)
                   (draw i (set FULL_DECK - set private - set public) (7 - strt))"
  shows "\<exists>score. length FULL_DECK = 52 \<and> distinct FULL_DECK
           \<and> public_eval draw ev private public strt iters
                  = Inr (fl (of_int score / of_int (2 * iters)))
           \<and> score = (\<Sum>i<nat iters. iter_score ev private public
                         (draw i (set FULL_DECK - set private - set public) (7 - strt)))
           \<and> 0 \<le> fl (of_int score / of_int (2 * iters))
           \<and> fl (of_int score / of_int (2 * iters)) \<le> 1
           \<and> (\<forall>i < nat iters. \<forall>d. d = draw i (set FULL_DECK - set private - set public) (7 - strt) \<longrightarrow>
                 length (take 2 d) = 2 \<and> length (drop 2 d) = 5 - strt \<and> distinct d
                 \<and> set d \<subseteq> set FULL_DECK \<and> set d \<inter> (set private \<union> set public) = {}
                 \<and> iter_score ev private public d =
                     (if ev (private @ public @ drop 2 d) > ev (take 2 d @ public @ drop 2 d) then 2
                      else if ev (private @ public @ drop 2 d) = ev (take 2 d @ public @ drop 2 d) then 1
                      else 0))"
proof -
  let ?R = "set FULL_DECK - set private - set public"
  let ?k = "2 + (5 - int strt)"
  let ?f = "\<lambda>i. iter_score ev private public (draw i ?R (7 - strt))"
  define score where "score = (\<Sum>i<nat iters. ?f i)"
  have k: "nat ?k = 7 - strt" "0 \<le> ?k" using st(1) by simp_all
  have "52 - length private - length public \<le> card ?R" by (rule remaining_cards_card)
  then have kc: "?k \<le> int (card ?R)" using hand st by simp
  have "mc_loop draw ev private public ?R ?k (nat iters) 0 0 =
        Inr (0 + (\<Sum>j<nat iters. iter_score ev private public (draw (0 + j) ?R (nat ?k))))"
    using k(2) kc by (rule mc_loop_sum)
  then have loop: "mc_loop draw ev private public ?R ?k (nat iters) 0 0 = Inr score"
    unfolding score_def by (simp only: k(1) add_0)
  have run: "public_eval draw ev private public strt iters
      = Inr (fl (of_int score / of_int (2 * iters)))"
    using iters loop by (simp add: public_eval_def Let_def int_truediv_def float_div_def)
  have s0: "0 \<le> score" unfolding score_def by (intro sum_nonneg) (simp add: iter_score_range)
  have "score \<le> (\<Sum>i<nat iters. 2)" unfolding score_def by (intro sum_mono) (simp add: iter_score_range)
  then have s1: "score \<le> 2 * iters" using iters by simp
  have q0: "0 \<le> real_of_int score / real_of_int (2 * iters)" using s0 iters by simp
  have q1: "real_of_int score / real_of_int (2 * iters) \<le> 1"
  proof -
    from s1 have "real_of_int score \<le> real_of_int (2 * iters)" by (simp only: of_int_le_iff)
    then show ?thesis using iters by simp
  qed
  have draws: "\<forall>i < nat iters. \<forall>d. d = draw i ?R (7 - strt) \<longrightarrow>
                 length (take 2 d) = 2 \<and> length (drop 2 d) = 5 - strt \<and> distinct d
                 \<and> set d \<subseteq> set FULL_DECK \<and> set d \<inter> (set private \<union> set public) = {}
                 \<and> iter_score ev private public d =
                     (if ev (private @ public @ drop 2 d) > ev (take 2 d @ public @ drop 2 d) then 2
                      else if ev (private @ public @ drop 2 d) = ev (take 2 d @ public @ drop 2 d) then 1
                      else 0)"
  proof (intro allI impI)
    fix i d assume i: "i < nat iters" and d: "d = draw i ?R (7 - strt)"
    from sample i d have sm: "is_sample ?R (7 - strt) d" by simp
    then have l: "length d = 7 - strt" and di: "distinct d" and su: "set d \<subseteq> ?R"
      by (simp_all add: is_sample_def)
    from l st(1) have "length (take 2 d) = 2" "length (drop 2 d) = 5 - strt" by simp_all
    moreover from su have "set d \<subseteq> set FULL_DECK" "set d \<inter> (set private \<union> set public) = {}" by auto
    ultimately show "length (take 2 d) = 2 \<and> length (drop 2 d) = 5 - strt \<and> distinct d
                 \<and> set d \<subseteq> set FULL_DECK \<and> set d \<inter> (set private \<union> set public) = {}
                 \<and> iter_score ev private public d =
                     (if ev (private @ public @ drop 2 d) > ev (take 2 d @ public @ drop 2 d) then 2
                      else if ev (private @ public @ drop 2 d) = ev (take 2 d @ public @ drop 2 d) then 1
                      else 0)"
      using di by (simp add: iter_score_def Let_def)
  qed
  from run score_def fl_nonneg [OF q0] fl_le_1 [OF q0 q1] draws deck_52 show ?thesis by blast
qed

lemma fl_three_quarters: "fl (3 / 4) = 3 / 4"
  by (subst fl_eval [of "-1"]) (simp_all add: round_half_even_def Let_def)

lemma example_remaining:
  "set FULL_DECK - set [''As'', ''Ah''] - set [''Kd'', ''7c'', ''2s''] = 
   set (filter (\<lambda>c. c \<notin> set [''As'', ''Ah'', ''Kd'', ''7c'', ''2s'']) FULL_DECK)"
  by auto

theorem public_eval_estimate_witness:
  "public_eval example_draw example_evaluate [''As'', ''Ah''] [''Kd'', ''7c'', ''2s''] 3 2 = Inr (3 / 4)
   \<and> is_sample (set FULL_DECK - set [''As'', ''Ah''] - set [''Kd'', ''7c'', ''2s'']) (7 - 3)
          (example_draw 0 (set FULL_DECK - set [''As'', ''Ah''] - set [''Kd'', ''7c'', ''2s'']) (7 - 3))
   \<and> is_sample (set FULL_DECK - set [''As'', ''Ah''] - set [''Kd'', ''7c'', ''2s'']) (7 - 3)
          (example_draw 1 (set FULL_DECK - set [''As'', ''Ah''] - set [''Kd'', ''7c'', ''2s'']) (7 - 3))"
proof -
  have smp: "\<forall>i < nat 2. is_sample (set FULL_DECK - set [''As'', ''Ah''] - set [''Kd'', ''7c'', ''2s'']) (7 - 3)
          (example_draw i (set FULL_DECK - set [''As'', ''Ah''] - set [''Kd'', ''7c'', ''2s'']) (7 - 3))"
    by (simp add: is_sample_def example_draw_def FULL_DECK_def NUMS_def SUITS_def)
  have sc: "(\<Sum>i<nat 2. iter_score example_evaluate [''As'', ''Ah''] [''Kd'', ''7c'', ''2s'']
             (example_draw i (set FULL_DECK - set [''As'', ''Ah''] - set [''Kd'', ''7c'', ''2s'']) (7 - 3))) = 3"
    by (simp add: iter_score_def example_draw_def example_evaluate_def Let_def numeral_2_eq_2)
  from public_eval_estimate [of 2 "[''As'', ''Ah'']" 3 "[''Kd'', ''7c'', ''2s'']" example_draw example_evaluate, OF _ _ _ _ smp]
  obtain score where "public_eval example_draw example_evaluate [''As'', ''Ah''] [''Kd'', ''7c'', ''2s''] 3 2
        = Inr (fl (of_int score / of_int (2 * 2)))"
    and "score = (\<Sum>i<nat 2. iter_score example_evaluate [''As'', ''Ah''] [''Kd'', ''7c'', ''2s'']
             (example_draw i (set FULL_DECK - set [''As'', ''Ah''] - set [''Kd'', ''7c'', ''2s'']) (7 - 3)))"
    by auto
  then have "public_eval example_draw example_evaluate [''As'', ''Ah''] [''Kd'', ''7c'', ''2s''] 3 2
        = Inr (fl (of_int 3 / of_int (2 * 2)))"
    by (simp only: sc)
  moreover have "is_sample (set FULL_DECK - set [''As'', ''Ah''] - set [''Kd'', ''7c'', ''2s'']) (7 - 3)
          (example_draw 0 (set FULL_DECK - set [''As'', ''Ah''] - set [''Kd'', ''7c'', ''2s'']) (7 - 3))"
    "is_sample (set FULL_DECK - set [''As'', ''Ah''] - set [''Kd'', ''7c'', ''2s'']) (7 - 3)
          (example_draw 1 (set FULL_DECK - set [''As'', ''Ah''] - set [''Kd'', ''7c'', ''2s'']) (7 - 3))"
    using smp by simp_all
  moreover have "fl (real_of_int 3 / real_of_int (2 * 2)) = 3 / 4"
  proof -
    have "real_of_int 3 / real_of_int (2 * 2) = 3 / 4" by simp
    then show ?thesis by (simp only: fl_three_quarters)
  qed
  ultimately show ?thesis by (simp only: simp_thms)
qed

section \<open>The threshold tuner: revert and tie\<close>


lemma lit_idem [simp]: "fl (lit x) = lit x"
  by (simp add: lit_def)

lemma fadd_0 [simp]: "fadd x 0 = fl x"
  by (simp add: fadd_def)

lemma fsub_0 [simp]: "fsub x 0 = fl x"
  by (simp add: fsub_def)

lemma window_root:
  "ebind (int_truediv 5 5) (\<lambda>q. ebind (math_sqrt q) (\<lambda>root. float_div x root)) = Inr (fl x)"
  by (simp add: int_truediv_def float_div_def math_sqrt_def)

lemma perturbation_round_5: "perturbation r width half 5 5 = Inr (fl (fsub (fmul r width) half))"
  by (simp only: perturbation_def Let_def window_root)

lemma half_width_a: "fsub (fmul (1 / 2) (lit (5 / 100))) (lit (25 / 1000)) = 0"
proof -
  have a: "lit (5 / 100) = 3602879701896397 / 2 ^ 56"
    unfolding lit_def by (subst fl_eval [of "-5"]) (simp_all add: round_half_even_def Let_def)
  have b: "lit (25 / 1000) = 3602879701896397 / 2 ^ 57"
    unfolding lit_def by (subst fl_eval [of "-6"]) (simp_all add: round_half_even_def Let_def)
  have c: "fmul (1 / 2) (3602879701896397 / 2 ^ 56) = 3602879701896397 / 2 ^ 57"
    unfolding fmul_def by (subst fl_eval [of "-6"]) (simp_all add: round_half_even_def Let_def)
  show ?thesis by (simp only: a b c fsub_def diff_self fl_0)
qed

lemma half_width_b: "fsub (fmul (1 / 2) (lit (1 / 10))) (lit (5 / 100)) = 0"
proof -
  have a: "lit (1 / 10) = 3602879701896397 / 2 ^ 55"
    unfolding lit_def by (subst fl_eval [of "-4"]) (simp_all add: round_half_even_def Let_def)
  have b: "lit (5 / 100) = 3602879701896397 / 2 ^ 56"
    unfolding lit_def by (subst fl_eval [of "-5"]) (simp_all add: round_half_even_def Let_def)
  have c: "fmul (1 / 2) (3602879701896397 / 2 ^ 55) = 3602879701896397 / 2 ^ 56"
    unfolding fmul_def by (subst fl_eval [of "-5"]) (simp_all add: round_half_even_def Let_def)
  show ?thesis by (simp only: a b c fsub_def diff_self fl_0)
qed

lemma example_delta_value: "fl (fsub (fmul (8444249301319683 / 2 ^ 53) 4) 2) = example_delta"
proof -
  have a: "fmul (8444249301319683 / 2 ^ 53) 4 = 8444249301319683 / 2 ^ 51"
    unfolding fmul_def by (subst fl_eval [of 1]) (simp_all add: round_half_even_def Let_def)
  have b: "fsub (8444249301319683 / 2 ^ 51) 2 = 3940649673949187 / 2 ^ 51"
    unfolding fsub_def by (subst fl_eval [of 0]) (simp_all add: round_half_even_def Let_def)
  have c: "fl (3940649673949187 / 2 ^ 51) = 3940649673949187 / 2 ^ 51"
    by (subst fl_eval [of 0]) (simp_all add: round_half_even_def Let_def)
  show ?thesis by (simp only: a b c example_delta_def)
qed

lemma unit_delta_value: "fl (fsub (fmul (3 / 4) 4) 2) = 1"
proof -
  have a: "fmul (3 / 4) 4 = 3"
    unfolding fmul_def by (subst fl_eval [of 1]) (simp_all add: round_half_even_def Let_def)
  have b: "fsub 3 2 = 1"
    unfolding fsub_def by simp
  show ?thesis by (simp only: a b fl_1)
qed

lemma example_new_mutation:
  "new_mutation example_rand p g 5 5 =
     Inr (p\<lparr>mutated := True, draise_pre := 0, draise_post := 0, dcall_pre := 0, dcall_post := 0,
            draise_exp := 0, draise_const := example_delta\<rparr>,
          g\<lparr>RAISE_MIN_STR_pre := fadd (RAISE_MIN_STR_pre g) 0,
            RAISE_MIN_STR_post := fadd (RAISE_MIN_STR_post g) 0,
            CALL_MIN_STR_pre := fadd (CALL_MIN_STR_pre g) 0,
            CALL_MIN_STR_post := fadd (CALL_MIN_STR_post g) 0,
            RAISE_VALUES_exp := fadd (RAISE_VALUES_exp g) 0,
            RAISE_VALUES_const := fadd (RAISE_VALUES_const g) example_delta\<rparr>)"
proof -
  have r: "example_rand 0 = 1 / 2" "example_rand 1 = 1 / 2" "example_rand 2 = 1 / 2"
    "example_rand 3 = 1 / 2" "example_rand 4 = 1 / 2" "example_rand 5 = 8444249301319683 / 2 ^ 53"
    by (simp_all add: example_rand_def)
  show ?thesis
    by (simp only: new_mutation_def perturbation_round_5 r half_width_a half_width_b
        example_delta_value fl_0 ebind_Inr)
qed

lemma exact_new_mutation:
  "new_mutation example_rand_exact p g 5 5 =
     Inr (p\<lparr>mutated := True, draise_pre := 0, draise_post := 0, dcall_pre := 0, dcall_post := 0,
            draise_exp := 0, draise_const := 1\<rparr>,
          g\<lparr>RAISE_MIN_STR_pre := fadd (RAISE_MIN_STR_pre g) 0,
            RAISE_MIN_STR_post := fadd (RAISE_MIN_STR_post g) 0,
            CALL_MIN_STR_pre := fadd (CALL_MIN_STR_pre g) 0,
            CALL_MIN_STR_post := fadd (CALL_MIN_STR_post g) 0,
            RAISE_VALUES_exp := fadd (RAISE_VALUES_exp g) 0,
            RAISE_VALUES_const := fadd (RAISE_VALUES_const g) 1\<rparr>)"
proof -
  have r: "example_rand_exact 0 = 1 / 2" "example_rand_exact 1 = 1 / 2" "example_rand_exact 2 = 1 / 2"
    "example_rand_exact 3 = 1 / 2" "example_rand_exact 4 = 1 / 2" "example_rand_exact 5 = 3 / 4"
    by (simp_all add: example_rand_exact_def)
  show ?thesis
    by (simp only: new_mutation_def perturbation_round_5 r half_width_a half_width_b
        unit_delta_value fl_0 ebind_Inr)
qed

lemma initial_const: "RAISE_VALUES_const initial_thresholds = example_const"
proof -
  have "lit (14439631715170798 / 10 ^ 15) = 2032197500369075 / 2 ^ 47"
    unfolding lit_def by (subst fl_eval [of 3]) (simp_all add: round_half_even_def Let_def)
  then show ?thesis by (simp only: initial_thresholds_def thresholds.select_convs example_const_def)
qed

lemma initial_doubles: "threshold_doubles initial_thresholds"
  by (simp add: threshold_doubles_def is_double_def initial_thresholds_def)

lemma example_sum_value: "fadd example_const example_delta = example_sum"
  unfolding fadd_def example_const_def example_delta_def example_sum_def
  by (subst fl_eval [of 4]) (simp_all add: round_half_even_def Let_def)

lemma example_restored_value: "fsub example_sum example_delta = example_restored"
  unfolding fsub_def example_restored_def example_delta_def example_sum_def
  by (subst fl_eval [of 3]) (simp_all add: round_half_even_def Let_def)

lemma example_restored_differs: "example_restored \<noteq> example_const"
  by (simp add: example_restored_def example_const_def)

lemma initial_fixed:
  "fl (RAISE_MIN_STR_pre initial_thresholds) = RAISE_MIN_STR_pre initial_thresholds"
  "fl (RAISE_MIN_STR_post initial_thresholds) = RAISE_MIN_STR_post initial_thresholds"
  "fl (CALL_MIN_STR_pre initial_thresholds) = CALL_MIN_STR_pre initial_thresholds"
  "fl (CALL_MIN_STR_post initial_thresholds) = CALL_MIN_STR_post initial_thresholds"
  "fl (RAISE_VALUES_exp initial_thresholds) = RAISE_VALUES_exp initial_thresholds"
  "fl (RAISE_VALUES_const initial_thresholds) = RAISE_VALUES_const initial_thresholds"
  using initial_doubles by (simp_all add: threshold_doubles_def is_double_def)

lemma example_first_window:
  "mutate example_rand example_player initial_thresholds 0 5
     = Inr (example_mutated_player, example_mutated_thresholds)"
  by (simp add: mutate_def Let_def example_new_mutation initial_fixed(1-5) initial_const
      example_sum_value example_mutated_player_def example_mutated_thresholds_def
      example_player_def)

lemma example_second_window:
  "mutate example_rand example_mutated_player example_mutated_thresholds 0 10
     = Inr (example_reverted_player, example_reverted_thresholds)"
  by (simp add: mutate_def Let_def flip_mutation_def initial_fixed(1-5) example_restored_value
      example_mutated_player_def example_mutated_thresholds_def example_reverted_player_def
      example_reverted_thresholds_def example_player_def)


lemma is_double_add_sub: "is_double x \<Longrightarrow> is_double (x + d) \<Longrightarrow> fsub (fadd x d) d = x"
  by (simp add: is_double_def fadd_def fsub_def)

lemma new_mutation_Inr:
  assumes "new_mutation rand p g round_num iters = Inr (p1, g1)"
  shows "mutated p1 \<and> total_payoffs p1 = total_payoffs p
       \<and> g1 = g\<lparr>RAISE_MIN_STR_pre := fadd (RAISE_MIN_STR_pre g) (draise_pre p1),
              RAISE_MIN_STR_post := fadd (RAISE_MIN_STR_post g) (draise_post p1),
              CALL_MIN_STR_pre := fadd (CALL_MIN_STR_pre g) (dcall_pre p1),
              CALL_MIN_STR_post := fadd (CALL_MIN_STR_post g) (dcall_post p1),
              RAISE_VALUES_exp := fadd (RAISE_VALUES_exp g) (draise_exp p1),
              RAISE_VALUES_const := fadd (RAISE_VALUES_const g) (draise_const p1)\<rparr>"
  using assms by (auto simp: new_mutation_def ebind_eq_Inr)


lemma example_exact_sum: "fadd example_const 1 = example_const + 1"
  unfolding fadd_def example_const_def
  by (subst fl_eval [of 3]) (simp_all add: round_half_even_def Let_def)

lemma example_exact_window:
  "mutate example_rand_exact example_player initial_thresholds 0 5
     = Inr (example_exact_player, example_exact_thresholds)"
  by (simp add: mutate_def Let_def exact_new_mutation initial_fixed(1-5) initial_const
      example_exact_sum example_exact_player_def example_exact_thresholds_def
      example_player_def)

lemma example_exact_sums: "exact_sums initial_thresholds example_exact_player"
proof -
  have "is_double (example_const + 1)"
    using example_exact_sum by (simp add: is_double_def fadd_def)
  then show ?thesis
    by (simp add: exact_sums_def is_double_def initial_fixed(1-5) initial_const
        example_exact_player_def example_player_def)
qed


text \<open>
  Claim C10. At a window boundary where the accumulated payoff, with the round's payoff
  added, equals the target \<open>6 * 5\<close>, \<open>mutate\<close> changes no threshold, leaves the
  active-mutation flag and the stored perturbations as they are, and resets the
  accumulator to zero: nothing else of the state changes.
\<close>

theorem mutate_tie_frame:
  assumes "round_num mod 5 = 0" and "total_payoffs p + my_delta = 6 * 5"
  shows "mutate rand p g my_delta round_num = Inr (p\<lparr>total_payoffs := 0\<rparr>, g)"
  using assms by (simp add: mutate_def Let_def)

theorem mutate_tie_frame_witness:
  "(10::int) mod 5 = 0 \<and> total_payoffs (example_mutated_player\<lparr>total_payoffs := 18\<rparr>) + 12 = 6 * 5
   \<and> mutate example_rand (example_mutated_player\<lparr>total_payoffs := 18\<rparr>) example_mutated_thresholds 12 10
       = Inr (example_mutated_player\<lparr>total_payoffs := 18\<rparr>\<lparr>total_payoffs := 0\<rparr>, example_mutated_thresholds)"
proof -
  have a: "(10::int) mod 5 = 0"
    and b: "total_payoffs (example_mutated_player\<lparr>total_payoffs := 18\<rparr>) + 12 = 6 * 5"
    by simp_all
  from mutate_tie_frame [OF a b] a b show ?thesis by blast
qed

section \<open>The betting policy: budget, bounds, pot odds and precedence\<close>



lemma commit_props:
  assumes "commit legal amt my cont stack net = (a, c)"
  shows "c = board_cost my cont a"
    and "commits_chips a \<Longrightarrow> c \<le> stack - net"
    and "a = RaiseAction x \<Longrightarrow> x = amt"
  using assms
  by (auto simp: commit_def Let_def board_cost_def commits_chips_def split: if_splits)

lemma respond_props:
  assumes "respond rnd g state strt cont tot s0 (commit legal amt my cont stack net) stack net = Inr (a, net')"
  shows "net' = net + board_cost my cont a"
    and "commits_chips a \<Longrightarrow> board_cost my cont a \<le> stack - net"
    and "a = RaiseAction x \<Longrightarrow> x = amt"
proof -
  obtain ca cc where c: "commit legal amt my cont stack net = (ca, cc)" by (cases "commit legal amt my cont stack net")
  note cp = commit_props [OF c]
  from assms have alt: "(a = ca \<and> net' = net + cc)
      \<or> (a = CallAction \<and> net' = net + cont \<and> cont \<le> stack - net)
      \<or> (a = FoldAction \<and> net' = net)"
    by (auto simp: respond_def Let_def c ebind_eq_Inr split: if_splits)
  from alt cp show "net' = net + board_cost my cont a"
    by (auto simp: board_cost_def)
  from alt cp show "commits_chips a \<Longrightarrow> board_cost my cont a \<le> stack - net"
    by (auto simp: board_cost_def commits_chips_def)
  from alt cp show "a = RaiseAction x \<Longrightarrow> x = amt"
    by auto
qed

lemma initiative_props:
  assumes "initiative rnd g state s (commit legal amt my cont stack net) net = (a, net')"
  shows "net' = net + board_cost my cont a"
    and "commits_chips a \<Longrightarrow> board_cost my cont a \<le> stack - net"
    and "a = RaiseAction x \<Longrightarrow> x = amt"
proof -
  obtain ca cc where c: "commit legal amt my cont stack net = (ca, cc)" by (cases "commit legal amt my cont stack net")
  note cp = commit_props [OF c]
  from assms have alt: "(a = ca \<and> net' = net + cc) \<or> (a = CheckAction \<and> net' = net)"
    by (auto simp: initiative_def c split: if_splits)
  from alt cp show "net' = net + board_cost my cont a"
    by (auto simp: board_cost_def)
  from alt cp show "commits_chips a \<Longrightarrow> board_cost my cont a \<le> stack - net"
    by (auto simp: board_cost_def commits_chips_def)
  from alt cp show "a = RaiseAction x \<Longrightarrow> x = amt"
    by auto
qed

lemma active_board_props:
  assumes "active_board orc p g strt stack i cards legal bs net = Inr (a, net')"
  shows "net' = net + board_cost (pips_me bs) (pips_opp bs - pips_me bs) a"
    and "commits_chips a \<Longrightarrow> board_cost (pips_me bs) (pips_opp bs - pips_me bs) a \<le> stack - net"
    and "a = RaiseAction x \<Longrightarrow> \<exists>candidate. x = clamp_raise (fst (bounds bs)) (snd (bounds bs)) candidate"
proof -
  from assms obtain sr where sr: "strength_and_raise orc p g strt i cards bs = Inr sr"
    and rest: "(if pips_opp bs - pips_me bs > 0
        then respond (random_value orc i) g (fst sr) strt (pips_opp bs - pips_me bs)
               (pips_me bs + pips_opp bs + pot bs) (fst (snd sr))
               (commit legal (clamp_raise (fst (bounds bs)) (snd (bounds bs)) (snd (snd sr)))
                  (pips_me bs) (pips_opp bs - pips_me bs) stack net) stack net
        else Inr (initiative (random_value orc i) g (fst sr) (fst (snd sr))
               (commit legal (clamp_raise (fst (bounds bs)) (snd (bounds bs)) (snd (snd sr)))
                  (pips_me bs) (pips_opp bs - pips_me bs) stack net) net)) = Inr (a, net')"
    by (auto simp: active_board_def Let_def ebind_eq_Inr)
  let ?amt = "clamp_raise (fst (bounds bs)) (snd (bounds bs)) (snd (snd sr))"
  have all: "net' = net + board_cost (pips_me bs) (pips_opp bs - pips_me bs) a
      \<and> (commits_chips a \<longrightarrow> board_cost (pips_me bs) (pips_opp bs - pips_me bs) a \<le> stack - net)
      \<and> (a = RaiseAction x \<longrightarrow> x = ?amt)"
  proof (cases "pips_opp bs - pips_me bs > 0")
    case True
    with rest have r: "respond (random_value orc i) g (fst sr) strt (pips_opp bs - pips_me bs)
               (pips_me bs + pips_opp bs + pot bs) (fst (snd sr))
               (commit legal ?amt (pips_me bs) (pips_opp bs - pips_me bs) stack net) stack net
             = Inr (a, net')" by simp
    from respond_props [OF r] show ?thesis by blast
  next
    case False
    with rest have r: "initiative (random_value orc i) g (fst sr) (fst (snd sr))
               (commit legal ?amt (pips_me bs) (pips_opp bs - pips_me bs) stack net) net
             = (a, net')" by simp
    from initiative_props [OF r] show ?thesis by blast
  qed
  from all show "net' = net + board_cost (pips_me bs) (pips_opp bs - pips_me bs) a" by simp
  from all show "commits_chips a \<Longrightarrow> board_cost (pips_me bs) (pips_opp bs - pips_me bs) a \<le> stack - net"
    by simp
  from all show "a = RaiseAction x \<Longrightarrow> \<exists>candidate. x = clamp_raise (fst (bounds bs)) (snd (bounds bs)) candidate"
    by blast
qed

lemma play_board_cases:
  assumes "play_board orc p g rs i net = Inr (a, net')"
  shows "(\<exists>cs. a = AssignAction cs \<and> net' = net \<and> KAssign \<in> legal_actions rs ! i)
       \<or> (a = CheckAction \<and> net' = net \<and> (\<exists>d. board_states rs ! i = TerminalState d))
       \<or> (\<exists>legal bs. i < length (board_allocations p) \<and> i < length (legal_actions rs)
             \<and> i < length (board_states rs) \<and> legal = legal_actions rs ! i \<and> KAssign \<notin> legal
             \<and> bs = board_states rs ! i \<and> (\<exists>my opp tot dk bnd. bs = BoardState my opp tot dk bnd)
             \<and> active_board orc p g (street rs) (my_stack rs) i (board_allocations p ! i) legal bs net
                 = Inr (a, net'))"
  using assms
  by (auto simp: play_board_def ebind_eq_Inr index_eq_Inr split: if_splits board_state.splits)

lemma play_board_props:
  assumes "play_board orc p g rs i net = Inr (a, net')"
  shows "net' = net + action_cost rs i a"
    and "commits_chips a \<Longrightarrow> action_cost rs i a \<le> my_stack rs - net"
    and "a = RaiseAction x \<Longrightarrow> \<exists>my opp tot dk mn mx candidate.
           i < length (board_states rs) \<and> board_states rs ! i = BoardState my opp tot dk (mn, mx)
           \<and> x = clamp_raise mn mx candidate"
proof -
  have ac: "action_cost rs i a = board_cost (pips_me bs) (pips_opp bs - pips_me bs) a"
    if "board_states rs ! i = bs" "bs = BoardState my opp tot dk bnd" for bs my opp tot dk bnd
    using that
    by (cases a) (simp_all add: action_cost_def board_cost_def my_pips_def opp_pips_def continue_cost_def)
  from play_board_cases [OF assms] show "net' = net + action_cost rs i a"
    using active_board_props(1) ac by (fastforce simp: action_cost_def)
  from play_board_cases [OF assms] show "commits_chips a \<Longrightarrow> action_cost rs i a \<le> my_stack rs - net"
    using active_board_props(2) ac by (fastforce simp: commits_chips_def)
  from play_board_cases [OF assms] show "a = RaiseAction x \<Longrightarrow> \<exists>my opp tot dk mn mx candidate.
           i < length (board_states rs) \<and> board_states rs ! i = BoardState my opp tot dk (mn, mx)
           \<and> x = clamp_raise mn mx candidate"
    using active_board_props(3) by (fastforce)
qed


lemma boards_upt: "[0 ..< NUM_BOARDS] = [0, 1, 2]"
  by (simp add: NUM_BOARDS_def upt_rec)

lemma decision_cycle_Inr:
  assumes "decision_cycle orc p g rs = Inr (acts, net)"
  shows "\<exists>a0 a1 a2 n1 n2.
           play_board orc p g rs 0 0 = Inr (a0, n1)
         \<and> play_board orc p g rs 1 n1 = Inr (a1, n2)
         \<and> play_board orc p g rs 2 n2 = Inr (a2, net)
         \<and> acts = [a0, a1, a2]"
  using assms
  by (auto simp: decision_cycle_def boards_upt ebind_eq_Inr split: if_splits)

lemma get_actions_Inr:
  "get_actions orc p g rs = Inr acts \<longleftrightarrow> (\<exists>net. decision_cycle orc p g rs = Inr (acts, net))"
  by (auto simp: get_actions_def ebind_eq_Inr)

lemma sum_3: "(\<Sum>i<NUM_BOARDS. f i) = f 0 + f 1 + (f 2 :: int)"
  by (simp add: NUM_BOARDS_def numeral_3_eq_3 numeral_2_eq_2)

text \<open>
  Claim C1. In one call of \<open>get_actions\<close> the chip costs of the three emitted actions,
  which \<open>net_cost\<close> accumulates, never exceed the player's stack at the start of the
  cycle (a stack is not negative): every raise or call is emitted only when its cost is
  at most \<open>my_stack\<close> minus the cost committed on the earlier boards of the cycle.
\<close>

theorem stack_safety:
  assumes "get_actions orc p g rs = Inr acts"
  shows "\<exists>net_cost. decision_cycle orc p g rs = Inr (acts, net_cost)
           \<and> length acts = NUM_BOARDS
           \<and> net_cost = (\<Sum>i<NUM_BOARDS. action_cost rs i (acts ! i))
           \<and> (\<forall>i<NUM_BOARDS. commits_chips (acts ! i) \<longrightarrow>
                 action_cost rs i (acts ! i) \<le> my_stack rs - (\<Sum>j<i. action_cost rs j (acts ! j)))
           \<and> (0 \<le> my_stack rs \<longrightarrow> net_cost \<le> my_stack rs)"
proof -
  from assms obtain net where dc: "decision_cycle orc p g rs = Inr (acts, net)"
    by (auto simp: get_actions_Inr)
  from decision_cycle_Inr [OF dc] obtain a0 a1 a2 n1 n2 where
    b0: "play_board orc p g rs 0 0 = Inr (a0, n1)"
    and b1: "play_board orc p g rs 1 n1 = Inr (a1, n2)"
    and b2: "play_board orc p g rs 2 n2 = Inr (a2, net)"
    and acts: "acts = [a0, a1, a2]" by blast
  let ?c = "\<lambda>i. action_cost rs i (acts ! i)"
  from play_board_props(1) [OF b0] have n1: "n1 = ?c 0" by (simp add: acts)
  from play_board_props(1) [OF b1] have n2: "n2 = ?c 0 + ?c 1" by (simp add: acts n1)
  from play_board_props(1) [OF b2] have n3: "net = ?c 0 + ?c 1 + ?c 2" by (simp add: acts n2)
  have s0: "commits_chips (acts ! 0) \<longrightarrow> ?c 0 \<le> my_stack rs - 0"
    using play_board_props(2) [OF b0] by (simp add: acts)
  have s1: "commits_chips (acts ! 1) \<longrightarrow> ?c 1 \<le> my_stack rs - ?c 0"
    using play_board_props(2) [OF b1] by (simp add: acts n1)
  have s2: "commits_chips (acts ! 2) \<longrightarrow> ?c 2 \<le> my_stack rs - (?c 0 + ?c 1)"
    using play_board_props(2) [OF b2] by (simp add: acts n2)
  have z: "\<not> commits_chips a \<Longrightarrow> action_cost rs i a = 0" for i a
    by (cases a) (simp_all add: commits_chips_def action_cost_def)
  have each: "\<forall>i<NUM_BOARDS. commits_chips (acts ! i) \<longrightarrow>
                 ?c i \<le> my_stack rs - (\<Sum>j<i. ?c j)"
  proof (intro allI impI)
    fix i assume "i < NUM_BOARDS" and cc: "commits_chips (acts ! i)"
    then have "i = 0 \<or> i = 1 \<or> i = 2" by (auto simp: NUM_BOARDS_def)
    then show "?c i \<le> my_stack rs - (\<Sum>j<i. ?c j)"
      using s0 s1 s2 cc by (auto simp: numeral_2_eq_2)
  qed
  have total: "0 \<le> my_stack rs \<longrightarrow> net \<le> my_stack rs"
  proof
    assume nn: "0 \<le> my_stack rs"
    have i1: "?c 0 \<le> my_stack rs" using s0 z [of "acts ! 0" 0] nn by (cases "commits_chips (acts ! 0)") auto
    have i2: "?c 0 + ?c 1 \<le> my_stack rs" using s1 z [of "acts ! 1" 1] i1 by (cases "commits_chips (acts ! 1)") auto
    have "?c 0 + ?c 1 + ?c 2 \<le> my_stack rs" using s2 z [of "acts ! 2" 2] i2 by (cases "commits_chips (acts ! 2)") auto
    then show "net \<le> my_stack rs" by (simp add: n3)
  qed
  have "length acts = NUM_BOARDS" by (simp add: acts NUM_BOARDS_def)
  moreover have "net = (\<Sum>i<NUM_BOARDS. ?c i)" by (simp only: sum_3 n3)
  ultimately show ?thesis using dc each total by blast
qed

lemma clamp_raise_bounds: "clamp_raise mn mx c \<le> mx \<and> (mn \<le> mx \<longrightarrow> mn \<le> clamp_raise mn mx c)"
  by (auto simp: clamp_raise_def)

text \<open>
  Claim C3. Every \<open>RaiseAction\<close> that \<open>get_actions\<close> emits is for a board in play
  and carries an amount that is at most the board's \<open>max_raise\<close> and, when
  \<open>min_raise \<le> max_raise\<close>, at least its \<open>min_raise\<close>: the amount was clamped before
  the action was built.
\<close>

theorem raise_within_bounds:
  assumes "get_actions orc p g rs = Inr acts" and "i < NUM_BOARDS" and "acts ! i = RaiseAction amount"
  shows "\<exists>my opp tot dk min_raise max_raise.
           board_states rs ! i = BoardState my opp tot dk (min_raise, max_raise)
         \<and> amount \<le> max_raise \<and> (min_raise \<le> max_raise \<longrightarrow> min_raise \<le> amount)"
proof -
  from assms(1) obtain net where dc: "decision_cycle orc p g rs = Inr (acts, net)"
    by (auto simp: get_actions_Inr)
  from decision_cycle_Inr [OF dc] obtain a0 a1 a2 n1 n2 where
    b0: "play_board orc p g rs 0 0 = Inr (a0, n1)"
    and b1: "play_board orc p g rs 1 n1 = Inr (a1, n2)"
    and b2: "play_board orc p g rs 2 n2 = Inr (a2, net)"
    and acts: "acts = [a0, a1, a2]" by blast
  from assms(2) have "i = 0 \<or> i = 1 \<or> i = 2" by (auto simp: NUM_BOARDS_def)
  then obtain n n' where "play_board orc p g rs i n = Inr (RaiseAction amount, n')"
    using b0 b1 b2 acts assms(3) by auto
  from play_board_props(3) [OF this refl] obtain my opp tot dk mn mx candidate where
    "board_states rs ! i = BoardState my opp tot dk (mn, mx)" "amount = clamp_raise mn mx candidate"
    by blast
  with clamp_raise_bounds [of mn mx candidate] show ?thesis by blast
qed

lemma respond_fold:
  assumes "intimidate strt cont s0 = Inr adjusted" and "pot_odds cont tot = Inr odds"
    and "adjusted < odds"
  shows "respond rnd g state strt cont tot s0 committed stack net = Inr (FoldAction, net)"
  using assms by (simp add: respond_def Let_def)

text \<open>
  Claim C2. On a board in play (no assignment due, not terminal) with a continue cost
  above zero, when the strength after the intimidation discount is strictly below
  \<open>continue_cost / (pot_total + continue_cost)\<close>, the action emitted for the board is a
  fold.
\<close>

theorem pot_odds_fold:
  assumes run: "get_actions orc p g rs = Inr acts" and i: "i < NUM_BOARDS"
    and active: "KAssign \<notin> legal_actions rs ! i" "board_states rs ! i = BoardState my opp tot dk bnd"
    and facing: "0 < opp - my"
    and strength: "strength_and_raise orc p g (street rs) i (board_allocations p ! i)
                     (board_states rs ! i) = Inr (state, s0, candidate)"
    and adjusted: "intimidate (street rs) (opp - my) s0 = Inr adjusted"
    and odds: "pot_odds (opp - my) (my + opp + tot) = Inr odds"
    and low: "adjusted < odds"
  shows "acts ! i = FoldAction"
proof -
  from run obtain net where dc: "decision_cycle orc p g rs = Inr (acts, net)"
    by (auto simp: get_actions_Inr)
  from decision_cycle_Inr [OF dc] obtain a0 a1 a2 n1 n2 where
    b0: "play_board orc p g rs 0 0 = Inr (a0, n1)"
    and b1: "play_board orc p g rs 1 n1 = Inr (a1, n2)"
    and b2: "play_board orc p g rs 2 n2 = Inr (a2, net)"
    and acts: "acts = [a0, a1, a2]" by blast
  from i have "i = 0 \<or> i = 1 \<or> i = 2" by (auto simp: NUM_BOARDS_def)
  then obtain n n' where pb: "play_board orc p g rs i n = Inr (acts ! i, n')"
    using b0 b1 b2 acts by auto
  let ?bs = "board_states rs ! i"
  from play_board_cases [OF pb] active
  have ab: "active_board orc p g (street rs) (my_stack rs) i (board_allocations p ! i)
              (legal_actions rs ! i) ?bs n = Inr (acts ! i, n')"
    by auto
  have "active_board orc p g (street rs) (my_stack rs) i (board_allocations p ! i)
              (legal_actions rs ! i) ?bs n = Inr (FoldAction, n)"
    using facing adjusted odds low strength
    by (simp add: active_board_def Let_def active(2) respond_fold)
  with ab show ?thesis by simp
qed

text \<open>
  Claim C7, as stated, fails in two ways. With the initiative (continue cost 0, legal
  actions check and raise) and a raise the remaining budget does not cover, the code
  commits a check, where "call when affordable" gives a call: the code also requires
  the call to be legal. Facing a bet of 8 with a raise amount equal to the player's own
  pips, the code does not raise although the amount differs from a pure call (which
  would bring the pips to 10): the code tests that the raise costs something, not that
  it differs from a call.
\<close>

theorem commit_precedence_counterexample:
  "fst (commit {KCheck, KRaise} 4 0 0 10 8) = CheckAction
   \<and> commit_as_specified {KCheck, KRaise} 4 0 0 10 8 = CallAction
   \<and> fst (commit {KFold, KCall, KRaise} 2 2 8 0 0) = FoldAction
   \<and> commit_as_specified {KFold, KCall, KRaise} 2 2 8 0 0 = RaiseAction 2"
  by (simp add: commit_def commit_as_specified_def)

text \<open>
  Claim C7, amended. The commit action follows the precedence raise, call, check, fold:
  a raise exactly when raising is legal, its cost fits within the stack minus the cost
  already committed on other boards, and its cost is not zero (the raise amount differs
  from the player's own pips); otherwise a call exactly when calling is legal and the
  continue cost fits within that budget; otherwise a check when checking is legal;
  otherwise a fold. The commit cost is the raise cost, the continue cost, or zero.
\<close>

theorem commit_precedence:
  "(fst (commit legal raise_amount my_pip board_cont_cost stack net_cost) = RaiseAction raise_amount
      \<longleftrightarrow> KRaise \<in> legal \<and> raise_amount - my_pip \<le> stack - net_cost \<and> raise_amount - my_pip \<noteq> 0)
   \<and> (fst (commit legal raise_amount my_pip board_cont_cost stack net_cost) = CallAction
      \<longleftrightarrow> \<not> (KRaise \<in> legal \<and> raise_amount - my_pip \<le> stack - net_cost \<and> raise_amount - my_pip \<noteq> 0)
          \<and> KCall \<in> legal \<and> board_cont_cost \<le> stack - net_cost)
   \<and> (fst (commit legal raise_amount my_pip board_cont_cost stack net_cost) = CheckAction
      \<longleftrightarrow> \<not> (KRaise \<in> legal \<and> raise_amount - my_pip \<le> stack - net_cost \<and> raise_amount - my_pip \<noteq> 0)
          \<and> \<not> (KCall \<in> legal \<and> board_cont_cost \<le> stack - net_cost) \<and> KCheck \<in> legal)
   \<and> (fst (commit legal raise_amount my_pip board_cont_cost stack net_cost) = FoldAction
      \<longleftrightarrow> \<not> (KRaise \<in> legal \<and> raise_amount - my_pip \<le> stack - net_cost \<and> raise_amount - my_pip \<noteq> 0)
          \<and> \<not> (KCall \<in> legal \<and> board_cont_cost \<le> stack - net_cost) \<and> KCheck \<notin> legal)
   \<and> snd (commit legal raise_amount my_pip board_cont_cost stack net_cost)
        = (case fst (commit legal raise_amount my_pip board_cont_cost stack net_cost) of
             RaiseAction amount \<Rightarrow> raise_amount - my_pip
           | CallAction \<Rightarrow> board_cont_cost
           | _ \<Rightarrow> 0)"
  by (simp add: commit_def Let_def)

theorem commit_precedence_witness:
  "fst (commit {KCheck, KRaise} 4 0 0 10 8) = CheckAction
   \<and> snd (commit {KCheck, KRaise} 4 0 0 10 8) = 0
   \<and> fst (commit {KFold, KCall, KRaise} 52 2 25 194 50) = RaiseAction 52
   \<and> snd (commit {KFold, KCall, KRaise} 52 2 25 194 50) = 50"
  using commit_precedence [of "{KCheck, KRaise}" 4 0 0 10 8]
    commit_precedence [of "{KFold, KCall, KRaise}" 52 2 25 194 50]
  by simp


lemma respond_commit:
  assumes "intimidate strt cont s0 = Inr s" and "pot_odds cont tot = Inr odds" and "odds \<le> s"
    and "rnd < fmul (lit (14 / 10)) s" and "RAISE_MIN_STR g state < s0"
  shows "respond rnd g state strt cont tot s0 committed stack net
         = Inr (fst committed, net + snd committed)"
  using assms by (simp add: respond_def Let_def)

lemma respond_weak_fold:
  assumes "intimidate strt cont s0 = Inr s" and "pot_odds cont tot = Inr odds" and "odds \<le> s"
    and "\<not> RAISE_MIN_STR g state < s0" and "\<not> CALL_MIN_STR g state < s0" and "0 \<le> cont"
  shows "respond rnd g state strt cont tot s0 committed stack net = Inr (FoldAction, net)"
proof -
  have "0 \<le> float_of_int (cont - INTIMIDATION_THRESHOLD)"
    using assms(6) by (simp add: float_of_int_def INTIMIDATION_THRESHOLD_def fl_nonneg)
  then show ?thesis using assms by (simp add: respond_def Let_def math_sqrt_def)
qed

lemma initial_raise_pre: "RAISE_MIN_STR initial_thresholds Pre = 5463928761079709 / 2 ^ 53"
proof -
  have "lit (6066179515462299 / 10 ^ 16) = 5463928761079709 / 2 ^ 53"
    unfolding lit_def by (subst fl_eval [of "-1"]) (simp_all add: round_half_even_def Let_def)
  then show ?thesis
    by (simp only: RAISE_MIN_STR_def initial_thresholds_def thresholds.select_convs state_str.case)
qed

lemma initial_call_pre: "CALL_MIN_STR initial_thresholds Pre = 5017711382593431 / 2 ^ 53"
proof -
  have "lit (5570778707878955 / 10 ^ 16) = 5017711382593431 / 2 ^ 53"
    unfolding lit_def by (subst fl_eval [of "-1"]) (simp_all add: round_half_even_def Let_def)
  then show ?thesis
    by (simp only: CALL_MIN_STR_def initial_thresholds_def thresholds.select_convs state_str.case)
qed

lemma example_odds: "pot_odds 25 29 = Inr (8339999309945363 / 2 ^ 54)"
proof -
  have "fl (25 / 54) = 8339999309945363 / 2 ^ 54"
    by (subst fl_eval [of "-2"]) (simp_all add: round_half_even_def Let_def)
  then show ?thesis by (simp add: pot_odds_def int_truediv_def float_div_def)
qed

lemma example_intimidate: "intimidate 0 25 s = Inr s"
  by (simp add: intimidate_def INTIMIDATION_THRESHOLD_def)

lemma lit_14: "lit (14 / 10) = 3152519739159347 / 2 ^ 51"
  unfolding lit_def by (subst fl_eval [of 0]) (simp_all add: round_half_even_def Let_def)

lemma example_raise_chance_kings: "(1 / 2 :: real) < fmul (lit (14 / 10)) (13 / 16)"
proof -
  have "fmul (3152519739159347 / 2 ^ 51) (13 / 16) = 5122844576133939 / 2 ^ 52"
    unfolding fmul_def by (subst fl_eval [of 0]) (simp_all add: round_half_even_def Let_def)
  then have "fmul (lit (14 / 10)) (13 / 16) = 5122844576133939 / 2 ^ 52" by (simp only: lit_14)
  then show ?thesis by (simp only:) simp
qed

lemma example_raise_chance_aces: "(1 / 2 :: real) < fmul (lit (14 / 10)) (27 / 32)"
proof -
  have "fmul (3152519739159347 / 2 ^ 51) (27 / 32) = 2659938529915699 / 2 ^ 51"
    unfolding fmul_def by (subst fl_eval [of 0]) (simp_all add: round_half_even_def Let_def)
  then have "fmul (lit (14 / 10)) (27 / 32) = 2659938529915699 / 2 ^ 51" by (simp only: lit_14)
  then show ?thesis by (simp only:) simp
qed

lemma example_amount_kings: "py_int (fadd (float_of_int 27) (fmul (fsub (13 / 16) (1 / 2)) 10)) = 30"
proof -
  have a: "fsub (13 / 16) (1 / 2) = 5 / 16"
    unfolding fsub_def by (subst fl_eval [of "-2"]) (simp_all add: round_half_even_def Let_def)
  have b: "fmul (5 / 16) 10 = 25 / 8"
    unfolding fmul_def by (subst fl_eval [of 1]) (simp_all add: round_half_even_def Let_def)
  have c: "float_of_int 27 = 27"
    unfolding float_of_int_def by (subst fl_eval [of 4]) (simp_all add: round_half_even_def Let_def)
  have d: "fadd 27 (25 / 8) = 241 / 8"
    unfolding fadd_def by (subst fl_eval [of 4]) (simp_all add: round_half_even_def Let_def)
  show ?thesis by (simp only: a b c d) (simp add: py_int_def)
qed

lemma example_amount_aces: "py_int (fadd (float_of_int 27) (fmul (fsub (27 / 32) (1 / 2)) 10)) = 30"
proof -
  have a: "fsub (27 / 32) (1 / 2) = 11 / 32"
    unfolding fsub_def by (subst fl_eval [of "-2"]) (simp_all add: round_half_even_def Let_def)
  have b: "fmul (11 / 32) 10 = 55 / 16"
    unfolding fmul_def by (subst fl_eval [of 1]) (simp_all add: round_half_even_def Let_def)
  have c: "float_of_int 27 = 27"
    unfolding float_of_int_def by (subst fl_eval [of 4]) (simp_all add: round_half_even_def Let_def)
  have d: "fadd 27 (55 / 16) = 487 / 16"
    unfolding fadd_def by (subst fl_eval [of 4]) (simp_all add: round_half_even_def Let_def)
  show ?thesis by (simp only: a b c d) (simp add: py_int_def)
qed

lemma example_strength_0:
  "strength_and_raise example_chance example_weak_player initial_thresholds 0 0 [''7c'', ''2d'']
     example_board = Inr (Pre, 11 / 32, 0)"
  by (simp add: strength_and_raise_def preflop_strength_def example_weak_player_def
      example_allocated_def example_player_def example_table_def example_board_def index_def hole_list_to_key_def
      rank_to_numeric_def lookup_def RANK_DICT_def initial_raise_pre)

lemma example_strength_1:
  "strength_and_raise example_chance example_weak_player initial_thresholds 0 1 [''Kd'', ''Ks'']
     example_board = Inr (Pre, 13 / 16, 30)"
  by (simp add: strength_and_raise_def preflop_strength_def example_weak_player_def
      example_allocated_def example_player_def example_table_def example_board_def index_def hole_list_to_key_def
      rank_to_numeric_def lookup_def RANK_DICT_def initial_raise_pre example_amount_kings)

lemma example_strength_2:
  "strength_and_raise example_chance example_weak_player initial_thresholds 0 2 [''As'', ''Ah'']
     example_board = Inr (Pre, 27 / 32, 30)"
  by (simp add: strength_and_raise_def preflop_strength_def example_weak_player_def
      example_allocated_def example_player_def example_table_def example_board_def index_def hole_list_to_key_def
      rank_to_numeric_def lookup_def RANK_DICT_def initial_raise_pre example_amount_aces)


lemma example_low: "(11 / 32 :: real) < 8339999309945363 / 2 ^ 54"
  by simp

lemma example_respond_fold:
  "respond rnd initial_thresholds Pre 0 25 29 (11 / 32) committed stack net = Inr (FoldAction, net)"
  by (rule respond_fold [OF example_intimidate example_odds example_low])

lemma example_respond_kings:
  "respond (1 / 2) initial_thresholds Pre 0 25 29 (13 / 16) committed stack net
   = Inr (fst committed, net + snd committed)"
proof -
  have "8339999309945363 / 2 ^ 54 \<le> (13 / 16 :: real)" by simp
  moreover have "RAISE_MIN_STR initial_thresholds Pre < 13 / 16"
    by (simp add: initial_raise_pre)
  ultimately show ?thesis
    using example_intimidate example_odds example_raise_chance_kings by (intro respond_commit)
qed

lemma example_respond_aces:
  "respond (1 / 2) initial_thresholds Pre 0 25 29 (27 / 32) committed stack net
   = Inr (fst committed, net + snd committed)"
proof -
  have "8339999309945363 / 2 ^ 54 \<le> (27 / 32 :: real)" by simp
  moreover have "RAISE_MIN_STR initial_thresholds Pre < 27 / 32"
    by (simp add: initial_raise_pre)
  ultimately show ?thesis
    using example_intimidate example_odds example_raise_chance_aces by (intro respond_commit)
qed

lemma example_board_0:
  "play_board example_chance example_weak_player initial_thresholds example_round 0 0
   = Inr (FoldAction, 0)"
proof -
  have "active_board example_chance example_weak_player initial_thresholds 0 194 0 [''7c'', ''2d'']
          {KFold, KCall, KRaise} example_board 0 = Inr (FoldAction, 0)"
    by (simp add: active_board_def Let_def example_strength_0)
       (simp add: example_board_def example_respond_fold)
  then show ?thesis
    by (simp add: play_board_def index_def example_round_def example_weak_player_def
        example_allocated_def example_player_def example_board_def)
qed

lemma example_board_1:
  "play_board example_chance example_weak_player initial_thresholds example_round 1 0
   = Inr (RaiseAction 52, 50)"
proof -
  have "active_board example_chance example_weak_player initial_thresholds 0 194 1 [''Kd'', ''Ks'']
          {KFold, KCall, KRaise} example_board 0 = Inr (RaiseAction 52, 50)"
    by (simp add: active_board_def Let_def example_strength_1 del: One_nat_def)
       (simp add: example_board_def example_chance_def example_respond_kings commit_def
          clamp_raise_def)
  then show ?thesis
    by (simp add: play_board_def index_def example_round_def example_weak_player_def
        example_allocated_def example_player_def example_board_def)
qed

lemma example_board_2:
  "play_board example_chance example_weak_player initial_thresholds example_round 2 50
   = Inr (RaiseAction 52, 100)"
proof -
  have "active_board example_chance example_weak_player initial_thresholds 0 194 2 [''As'', ''Ah'']
          {KFold, KCall, KRaise} example_board 50 = Inr (RaiseAction 52, 100)"
    by (simp add: active_board_def Let_def example_strength_2)
       (simp add: example_board_def example_chance_def example_respond_aces commit_def
          clamp_raise_def)
  then show ?thesis
    by (simp add: play_board_def index_def example_round_def example_weak_player_def
        example_allocated_def example_player_def example_board_def)
qed

lemma example_cycle:
  "decision_cycle example_chance example_weak_player initial_thresholds example_round
   = Inr ([FoldAction, RaiseAction 52, RaiseAction 52], 100)"
proof -
  have "\<not> length (board_states example_round) < NUM_BOARDS"
    by (simp add: example_round_def NUM_BOARDS_def)
  then show ?thesis
    using example_board_0 example_board_1 example_board_2
    by (simp add: decision_cycle_def boards_upt)
qed

lemma example_actions:
  "get_actions example_chance example_weak_player initial_thresholds example_round
   = Inr [FoldAction, RaiseAction 52, RaiseAction 52]"
  by (simp add: get_actions_def example_cycle)

theorem stack_safety_witness:
  "get_actions example_chance example_weak_player initial_thresholds example_round
     = Inr [FoldAction, RaiseAction 52, RaiseAction 52]
   \<and> 0 \<le> my_stack example_round
   \<and> decision_cycle example_chance example_weak_player initial_thresholds example_round
       = Inr ([FoldAction, RaiseAction 52, RaiseAction 52], 100)
   \<and> (100::int) = (\<Sum>i<NUM_BOARDS. action_cost example_round i ([FoldAction, RaiseAction 52, RaiseAction 52] ! i))
   \<and> (100::int) \<le> my_stack example_round"
proof -
  have nn: "0 \<le> my_stack example_round" by (simp add: example_round_def)
  from stack_safety [OF example_actions] obtain net_cost where
    dc: "decision_cycle example_chance example_weak_player initial_thresholds example_round
          = Inr ([FoldAction, RaiseAction 52, RaiseAction 52], net_cost)"
    and s: "net_cost = (\<Sum>i<NUM_BOARDS. action_cost example_round i ([FoldAction, RaiseAction 52, RaiseAction 52] ! i))"
    and t: "0 \<le> my_stack example_round \<longrightarrow> net_cost \<le> my_stack example_round"
    by blast
  from dc have n: "net_cost = 100" by (simp add: example_cycle)
  from n s t nn example_actions example_cycle show ?thesis by simp
qed

theorem raise_within_bounds_witness:
  "get_actions example_chance example_weak_player initial_thresholds example_round
     = Inr [FoldAction, RaiseAction 52, RaiseAction 52]
   \<and> (1::nat) < NUM_BOARDS
   \<and> [FoldAction, RaiseAction 52, RaiseAction 52] ! 1 = RaiseAction 52
   \<and> (\<exists>my opp tot dk min_raise max_raise.
           board_states example_round ! 1 = BoardState my opp tot dk (min_raise, max_raise)
         \<and> 52 \<le> max_raise \<and> (min_raise \<le> max_raise \<longrightarrow> min_raise \<le> 52))"
proof -
  have a: "(1::nat) < NUM_BOARDS" by (simp add: NUM_BOARDS_def)
  have b: "[FoldAction, RaiseAction 52, RaiseAction 52] ! 1 = RaiseAction 52" by simp
  from raise_within_bounds [OF example_actions a b] example_actions a b show ?thesis by blast
qed


theorem pot_odds_fold_witness:
  "get_actions example_chance example_weak_player initial_thresholds example_round
     = Inr [FoldAction, RaiseAction 52, RaiseAction 52]
   \<and> KAssign \<notin> legal_actions example_round ! 0
   \<and> board_states example_round ! 0 = BoardState 2 27 0 [] (52, 146)
   \<and> strength_and_raise example_chance example_weak_player initial_thresholds
         (street example_round) 0 (board_allocations example_weak_player ! 0)
         (board_states example_round ! 0) = Inr (Pre, 11 / 32, 0)
   \<and> intimidate (street example_round) (27 - 2) (11 / 32) = Inr (11 / 32)
   \<and> pot_odds (27 - 2) (2 + 27 + 0) = Inr (8339999309945363 / 2 ^ 54)
   \<and> (11 / 32 :: real) < 8339999309945363 / 2 ^ 54
   \<and> [FoldAction, RaiseAction 52, RaiseAction 52] ! 0 = FoldAction"
proof -
  have i: "(0::nat) < NUM_BOARDS" by (simp add: NUM_BOARDS_def)
  have a: "KAssign \<notin> legal_actions example_round ! 0"
    and b: "board_states example_round ! 0 = BoardState 2 27 0 [] (52, 146)"
    by (simp_all add: example_round_def example_board_def)
  have f: "(0::int) < 27 - 2" by simp
  have s: "strength_and_raise example_chance example_weak_player initial_thresholds
         (street example_round) 0 (board_allocations example_weak_player ! 0)
         (board_states example_round ! 0) = Inr (Pre, 11 / 32, 0)"
    using example_strength_0
    by (simp add: example_round_def example_weak_player_def example_allocated_def example_player_def)
  have t: "intimidate (street example_round) (27 - 2) (11 / 32) = Inr (11 / 32)"
    using example_intimidate [of "11 / 32"] by (simp add: example_round_def)
  have o: "pot_odds (27 - 2) (2 + 27 + 0) = Inr (8339999309945363 / 2 ^ 54)"
    using example_odds by simp
  from pot_odds_fold [OF example_actions i a b f s t o example_low] example_actions a b s t o example_low
  show ?thesis by blast
qed

end
